(* ===== verification/Prelude.thy ===== *)
theory Prelude
  imports Complex_Main "HOL-Library.Word" "HOL-Library.Multiset"
begin

section \<open>Prelude: the types and generic facts every component shares\<close>

text \<open>
  Go's strings and byte slices are both sequences of bytes: both are \<open>char list\<close> here
  (a \<open>char\<close> of HOL is one byte), so the conversions \<open>[]byte(s)\<close> and \<open>string(b)\<close>
  of the source are the identity.  Go's \<open>int64\<close> and \<open>uint64\<close> are 64-bit words.

  Go's \<open>error\<close> values are \<open>goerr\<close>: a sentinel made by \<open>errors.New\<close> at package
  level, a message made by \<open>fmt.Errorf\<close> without \<open>%w\<close>, a message that wraps another
  error with \<open>%w\<close>, or an error made inside a library, of which the model keeps the
  package call it came from.
\<close>

type_synonym byte = char
type_synonym bytes = "char list"
type_synonym int64 = "64 word"
type_synonym uint64 = "64 word"

datatype goerr =
    Sentinel string
  | Errorf string
  | Wrapf string goerr
  | LibError string

type_synonym 'a result = "goerr + 'a"

text \<open>\<open>err.Error()\<close>: a wrapped error prints as its prefix, a colon and the inner text.\<close>

fun error_string :: "goerr \<Rightarrow> string" where
  "error_string (Sentinel s) = s"
| "error_string (Errorf s) = s"
| "error_string (Wrapf s e) = s @ '': '' @ error_string e"
| "error_string (LibError s) = s"

text \<open>\<open>errors.Is(err, target)\<close>: walk the chain of wrapped errors.\<close>

fun errors_Is :: "goerr \<Rightarrow> goerr \<Rightarrow> bool" where
  "errors_Is (Wrapf s e) t \<longleftrightarrow> Wrapf s e = t \<or> errors_Is e t"
| "errors_Is e t \<longleftrightarrow> e = t"

lemma errors_Is_refl [simp]: "errors_Is e e"
  by (cases e) auto

text \<open>
  Sequencing of a call that may fail: the \<open>if err != nil { return ..., err }\<close> of the
  source.  \<open>wrap_err\<close> is the early return that wraps the error first.
\<close>

fun bind_result :: "('e + 'a) \<Rightarrow> ('a \<Rightarrow> 'e + 'b) \<Rightarrow> 'e + 'b" where
  "bind_result (Inl e) f = Inl e"
| "bind_result (Inr x) f = f x"

fun wrap_err :: "string \<Rightarrow> 'a result \<Rightarrow> 'a result" where
  "wrap_err s (Inl e) = Inl (Wrapf s e)"
| "wrap_err s (Inr x) = Inr x"

fun of_option :: "'e \<Rightarrow> 'a option \<Rightarrow> 'e + 'a" where
  "of_option e None = Inl e"
| "of_option e (Some x) = Inr x"

fun is_ok :: "'e + 'a \<Rightarrow> bool" where
  "is_ok (Inl _) = False"
| "is_ok (Inr _) = True"

named_theorems result_simps \<open>facts about calls that may fail\<close>

lemma bind_result_Inr_iff [result_simps]:
  "bind_result r f = Inr y \<longleftrightarrow> (\<exists>x. r = Inr x \<and> f x = Inr y)"
  by (cases r) auto

lemma bind_result_Inl_iff [result_simps]:
  "bind_result r f = Inl e \<longleftrightarrow> r = Inl e \<or> (\<exists>x. r = Inr x \<and> f x = Inl e)"
  by (cases r) auto

lemma wrap_err_Inr_iff [result_simps]: "wrap_err s r = Inr y \<longleftrightarrow> r = Inr y"
  by (cases r) auto

lemma wrap_err_Inl_iff [result_simps]:
  "wrap_err s r = Inl e \<longleftrightarrow> (\<exists>e'. r = Inl e' \<and> e = Wrapf s e')"
  by (cases r) auto

lemma of_option_Inr_iff [result_simps]: "of_option e r = Inr y \<longleftrightarrow> r = Some y"
  by (cases r) auto

lemma of_option_Inl_iff [result_simps]: "of_option e r = Inl e' \<longleftrightarrow> r = None \<and> e' = e"
  by (cases r) auto

lemma is_ok_iff [result_simps]: "is_ok r \<longleftrightarrow> (\<exists>x. r = Inr x)"
  by (cases r) auto

subsection \<open>64-bit integers\<close>

lemma sint_int64_range: "- (2 ^ 63) \<le> sint (w :: int64)" "sint (w :: int64) < 2 ^ 63"
  using sint_range_size [of w] by (simp_all add: word_size)

lemma sint_int64_of_int:
  "- (2 ^ 63) \<le> i \<Longrightarrow> i < 2 ^ 63 \<Longrightarrow> sint (word_of_int i :: int64) = i"
  by (simp add: int_word_sint)

lemma sint_int64_inject: "sint (v :: int64) = sint w \<Longrightarrow> v = w"
  by (rule signed_word_eqI)

subsection \<open>Separators\<close>

text \<open>
  Two words joined at a separator that does not occur in the second word determine both
  words: the fact behind every \<open>a + "|" + b\<close> of the source.
\<close>

lemma split_at_first_sep:
  "a @ s # b = a' @ s # b' \<Longrightarrow> s \<notin> set a \<Longrightarrow> s \<notin> set a' \<Longrightarrow> a = a' \<and> b = b'"
proof (induction a arbitrary: a')
  case Nil
  then show ?case by (cases a') auto
next
  case (Cons x xs)
  then show ?case by (cases a') auto
qed

lemma split_at_last_sep:
  assumes "a @ s # b = a' @ s # b'" and "s \<notin> set b" and "s \<notin> set b'"
  shows "a = a' \<and> b = b'"
proof -
  have "rev b @ s # rev a = rev b' @ s # rev a'"
    using arg_cong [OF assms(1), of rev] by simp
  then have "rev b = rev b' \<and> rev a = rev a'"
    using assms(2,3) by (intro split_at_first_sep) auto
  then show ?thesis by simp
qed

subsection \<open>The interface of an encoder and its decoder\<close>

text \<open>
  Every wire format of the repository is written by one side and read by the other: an
  encoder, a decoder that may fail, and the law that decoding gives back what was encoded,
  on the values (\<open>good\<close>) the format can carry.
\<close>

locale codec =
  fixes enc :: "'a \<Rightarrow> 'b" and dec :: "'b \<Rightarrow> 'a option" and good :: "'a \<Rightarrow> bool"
  assumes dec_enc: "good x \<Longrightarrow> dec (enc x) = Some x"
begin

lemma enc_inject:
  assumes "good x" and "good y" and "enc x = enc y"
  shows "x = y"
proof -
  have "Some x = dec (enc x)" using assms(1) by (simp add: dec_enc)
  also have "\<dots> = Some y" using assms(2,3) by (simp add: dec_enc)
  finally show ?thesis by simp
qed

lemma enc_inj_on: "inj_on enc {x. good x}"
  by (auto intro: inj_onI enc_inject)

lemma dec_enc_list: "list_all good xs \<Longrightarrow> those (map (dec \<circ> enc) xs) = Some xs"
  by (induction xs) (auto simp: dec_enc)

end

end
