(* ===== verification/Go_Float.thy ===== *)
theory Go_Float
  imports Prelude
begin

section \<open>Go's float64\<close>

text \<open>
  IEEE 754 binary64, as far as the repository uses it: conversion from integers,
  multiplication, division, \<open>math.Round\<close> and conversion to an integer.  A finite value
  is a sign, a mantissa below \<open>2 ^ 53\<close> and an exponent from -1074 to 971; its value is
  \<open>mantissa * 2 powi exponent\<close>.  All definitions compute on integers; the lemmas relate
  them to real numbers through \<open>val\<close> and the rounding function \<open>rnd\<close> (to nearest,
  ties to even).
\<close>

datatype f64 = NaN | Inf bool | Fin bool int int

fun wf_f64 :: "f64 \<Rightarrow> bool" where
  "wf_f64 (Fin s m e) \<longleftrightarrow>
     0 \<le> m \<and> m < 2 ^ 53 \<and> - 1074 \<le> e \<and> e \<le> 971 \<and> (2 ^ 52 \<le> m \<or> e = - 1074)"
| "wf_f64 _ \<longleftrightarrow> True"

fun finite_f64 :: "f64 \<Rightarrow> bool" where
  "finite_f64 (Fin s m e) = True"
| "finite_f64 _ = False"

definition sgn_of :: "bool \<Rightarrow> real" where
  "sgn_of s = (if s then - 1 else 1)"

fun val :: "f64 \<Rightarrow> real" where
  "val (Fin s m e) = sgn_of s * (of_int m * 2 powi e)"
| "val _ = 0"

subsection \<open>Rounding, on integers\<close>

function bit_len :: "int \<Rightarrow> int" where
  "bit_len n = (if n \<le> 0 then 0 else 1 + bit_len (n div 2))"
  by pat_completeness auto
termination
  by (relation "measure nat") auto

declare bit_len.simps [simp del]

text \<open>The quotient rounded to the nearest integer, ties to even.\<close>

definition div_rne :: "int \<Rightarrow> int \<Rightarrow> int" where
  "div_rne n d =
     (let q = n div d; r = n mod d
      in if 2 * r < d \<or> (2 * r = d \<and> even q) then q else q + 1)"

text \<open>\<open>div_pow n d e\<close> is \<open>n / (d * 2 powi e)\<close> rounded to an integer.\<close>

definition div_pow :: "int \<Rightarrow> int \<Rightarrow> int \<Rightarrow> int" where
  "div_pow n d e =
     (if 0 \<le> e then div_rne n (d * 2 ^ nat e) else div_rne (n * 2 ^ nat (- e)) d)"

text \<open>The exponent of the leading bit of \<open>n / d\<close>.\<close>

definition log2_ratio :: "int \<Rightarrow> int \<Rightarrow> int" where
  "log2_ratio n d =
     (let k = bit_len n - bit_len d
      in if (if 0 \<le> k then d * 2 ^ nat k \<le> n else d \<le> n * 2 ^ nat (- k)) then k else k - 1)"

definition mk_f64 :: "bool \<Rightarrow> int \<Rightarrow> int \<Rightarrow> f64" where
  "mk_f64 s m e =
     (let (m, e) = (if m = 2 ^ 53 then (2 ^ 52, e + 1) else (m, e))
      in if 971 < e then Inf s else Fin s m e)"

definition round_ratio :: "bool \<Rightarrow> int \<Rightarrow> int \<Rightarrow> f64" where
  "round_ratio s n d =
     (if n = 0 then Fin s 0 (- 1074)
      else let e = max (- 1074) (log2_ratio n d - 52) in mk_f64 s (div_pow n d e) e)"

definition round_scaled :: "bool \<Rightarrow> int \<Rightarrow> int \<Rightarrow> int \<Rightarrow> f64" where
  "round_scaled s n d e =
     (if 0 \<le> e then round_ratio s (n * 2 ^ nat e) d else round_ratio s n (d * 2 ^ nat (- e)))"

subsection \<open>The operations\<close>

definition f64_of_int :: "int \<Rightarrow> f64" where
  "f64_of_int i = round_ratio (i < 0) \<bar>i\<bar> 1"

definition f64_of_uint64 :: "uint64 \<Rightarrow> f64" where
  "f64_of_uint64 w = f64_of_int (uint w)"

fun f64_is_zero :: "f64 \<Rightarrow> bool" where
  "f64_is_zero (Fin s m e) \<longleftrightarrow> m = 0"
| "f64_is_zero _ \<longleftrightarrow> False"

fun f64_mult :: "f64 \<Rightarrow> f64 \<Rightarrow> f64" where
  "f64_mult NaN y = NaN"
| "f64_mult x NaN = NaN"
| "f64_mult (Inf s) (Inf t) = Inf (s \<noteq> t)"
| "f64_mult (Inf s) (Fin t m e) = (if m = 0 then NaN else Inf (s \<noteq> t))"
| "f64_mult (Fin s m e) (Inf t) = (if m = 0 then NaN else Inf (s \<noteq> t))"
| "f64_mult (Fin s m e) (Fin t m' e') = round_scaled (s \<noteq> t) (m * m') 1 (e + e')"

fun f64_div :: "f64 \<Rightarrow> f64 \<Rightarrow> f64" where
  "f64_div NaN y = NaN"
| "f64_div x NaN = NaN"
| "f64_div (Inf s) (Inf t) = NaN"
| "f64_div (Inf s) (Fin t m e) = Inf (s \<noteq> t)"
| "f64_div (Fin s m e) (Inf t) = Fin (s \<noteq> t) 0 (- 1074)"
| "f64_div (Fin s m e) (Fin t m' e') =
     (if m' = 0 then (if m = 0 then NaN else Inf (s \<noteq> t))
      else round_scaled (s \<noteq> t) m m' (e - e'))"

text \<open>
  Conversion to \<open>int64\<close> discards the fraction.  Where the value does not fit, Go leaves
  the result to the implementation (arm64 saturates, amd64 gives the least integer): it is
  the parameter \<open>oor\<close>.
\<close>

fun f64_trunc :: "f64 \<Rightarrow> int" where
  "f64_trunc (Fin s m e) =
     (let q = (if 0 \<le> e then m * 2 ^ nat e else m div 2 ^ nat (- e))
      in if s then - q else q)"
| "f64_trunc _ = 0"

fun fits_int64 :: "f64 \<Rightarrow> bool" where
  "fits_int64 (Fin s m e) \<longleftrightarrow> - (2 ^ 63) \<le> f64_trunc (Fin s m e) \<and> f64_trunc (Fin s m e) < 2 ^ 63"
| "fits_int64 _ \<longleftrightarrow> False"

definition f64_to_int64 :: "(f64 \<Rightarrow> int64) \<Rightarrow> f64 \<Rightarrow> int64" where
  "f64_to_int64 oor x = (if fits_int64 x then word_of_int (f64_trunc x) else oor x)"

text \<open>\<open>math.Round\<close>: to the nearest integer, halves away from zero.\<close>

fun math_Round :: "f64 \<Rightarrow> f64" where
  "math_Round (Fin s m e) =
     (if 0 \<le> e then Fin s m e
      else round_ratio s ((2 * m + 2 ^ nat (- e)) div (2 * 2 ^ nat (- e))) 1)"
| "math_Round x = x"

text \<open>Comparison of finite values, for the statements of monotonicity.\<close>

definition f64_le :: "f64 \<Rightarrow> f64 \<Rightarrow> bool" where
  "f64_le x y \<longleftrightarrow> finite_f64 x \<and> finite_f64 y \<and> val x \<le> val y"

subsection \<open>Rounding, on real numbers\<close>

definition rne :: "real \<Rightarrow> int" where
  "rne x = (if x - \<lfloor>x\<rfloor> < 1 / 2 \<or> (x - \<lfloor>x\<rfloor> = 1 / 2 \<and> even \<lfloor>x\<rfloor>) then \<lfloor>x\<rfloor> else \<lfloor>x\<rfloor> + 1)"

definition flog2 :: "real \<Rightarrow> int" where
  "flog2 x = \<lfloor>log 2 x\<rfloor>"

definition ulp_exp :: "real \<Rightarrow> int" where
  "ulp_exp x = max (- 1074) (flog2 x - 52)"

definition rnd :: "real \<Rightarrow> real" where
  "rnd x = rne (x / 2 powi ulp_exp x) * 2 powi ulp_exp x"

lemma rne_error: "\<bar>of_int (rne x) - x\<bar> \<le> 1 / 2"
  unfolding rne_def by (auto simp: abs_le_iff; linarith)

lemma rne_of_int [simp]: "rne (of_int i) = i"
  by (simp add: rne_def)

lemma rne_mono: "x \<le> y \<Longrightarrow> rne x \<le> rne y"
proof (cases "\<lfloor>x\<rfloor> = \<lfloor>y\<rfloor>")
  case True
  assume "x \<le> y"
  with True show ?thesis unfolding rne_def by (auto simp: algebra_simps)
next
  case False
  assume "x \<le> y"
  with False have "\<lfloor>x\<rfloor> + 1 \<le> \<lfloor>y\<rfloor>" by (meson floor_mono le_neq_trans zless_imp_add1_zle not_le)
  then show ?thesis unfolding rne_def by auto
qed

lemma rne_le_int: "x \<le> of_int i \<Longrightarrow> rne x \<le> i"
  using rne_mono [of x "of_int i"] by simp

lemma rne_ge_int: "of_int i \<le> x \<Longrightarrow> i \<le> rne x"
  using rne_mono [of "of_int i" x] by simp

lemma flog2_iff: "0 < x \<Longrightarrow> flog2 x = k \<longleftrightarrow> 2 powi k \<le> x \<and> x < 2 powi (k + 1)"
proof -
  assume x: "0 < x"
  have p: "(2::real) powr of_int j = 2 powi j" for j :: int
    by (simp add: powr_real_of_int')
  show ?thesis
    using floor_log_eq_powr_iff [OF x, of 2 k] p [of k] p [of "k + 1"] by (simp add: flog2_def)
qed

lemma flog2_bounds: "0 < x \<Longrightarrow> 2 powi flog2 x \<le> x \<and> x < 2 powi (flog2 x + 1)"
  using flog2_iff [of x "flog2 x"] by simp

lemma flog2_mono: "0 < x \<Longrightarrow> x \<le> y \<Longrightarrow> flog2 x \<le> flog2 y"
  unfolding flog2_def by (intro floor_mono) simp

lemma div_rne_rne: "0 < d \<Longrightarrow> div_rne n d = rne (of_int n / of_int d)"
proof -
  assume d: "0 < d"
  have fl: "\<lfloor>real_of_int n / real_of_int d\<rfloor> = n div d"
    by (simp add: floor_divide_of_int_eq)
  have fr: "real_of_int n / real_of_int d - of_int (n div d) = of_int (n mod d) / of_int d"
    using d by (simp add: field_simps flip: of_int_mult of_int_add)
  have lt: "real_of_int (n mod d) / real_of_int d < 1 / 2 \<longleftrightarrow> 2 * (n mod d) < d"
    using d by (simp add: field_simps) linarith
  have eq: "real_of_int (n mod d) / real_of_int d = 1 / 2 \<longleftrightarrow> 2 * (n mod d) = d"
    using d by (simp add: field_simps) linarith
  show ?thesis
    unfolding rne_def div_rne_def Let_def fl fr lt eq by simp
qed

lemma powi_nonneg: "0 \<le> e \<Longrightarrow> (2::real) powi e = 2 ^ nat e"
  by (simp add: power_int_def)

lemma powi_neg: "e \<le> 0 \<Longrightarrow> (2::real) powi e = 1 / 2 ^ nat (- e)"
proof -
  assume "e \<le> 0"
  then have "e = - int (nat (- e))" by simp
  then have "(2::real) powi e = 2 powi (- int (nat (- e)))" by simp
  also have "\<dots> = inverse (2 ^ nat (- e))" by (simp only: power_int_minus power_int_of_nat)
  finally show ?thesis by (simp add: divide_inverse)
qed

lemma div_pow_rne:
  assumes d: "0 < d"
  shows "div_pow n d e = rne (of_int n / of_int d / 2 powi e)"
proof (cases "0 \<le> e")
  case True
  then have "div_pow n d e = rne (of_int n / of_int (d * 2 ^ nat e))"
    using d by (simp add: div_pow_def div_rne_rne)
  then show ?thesis using True by (simp add: powi_nonneg)
next
  case False
  then have "div_pow n d e = rne (of_int (n * 2 ^ nat (- e)) / of_int d)"
    using d by (simp add: div_pow_def div_rne_rne)
  then show ?thesis using False by (simp add: powi_neg)
qed

lemma bit_len_nonneg: "0 \<le> bit_len n"
proof (induction n rule: bit_len.induct)
  case (1 n)
  then show ?case by (subst bit_len.simps) simp
qed

lemma bit_len_bounds: "0 < n \<Longrightarrow> 2 powi (bit_len n - 1) \<le> real_of_int n \<and> real_of_int n < 2 powi bit_len n"
proof (induction n rule: bit_len.induct)
  case (1 n)
  show ?case
  proof (cases "n = 1")
    case True
    have "bit_len 1 = 1" by (subst bit_len.simps, subst bit_len.simps) simp
    with True show ?thesis by simp
  next
    case False
    with "1.prems" have h: "0 < n div 2" by simp
    with "1.IH" "1.prems" have ih:
      "2 powi (bit_len (n div 2) - 1) \<le> real_of_int (n div 2)"
      "real_of_int (n div 2) < 2 powi bit_len (n div 2)" by auto
    have bl: "bit_len n = bit_len (n div 2) + 1"
      using "1.prems" by (simp add: bit_len.simps [of n])
    have nn: "bit_len (n div 2) \<ge> 0"
      by (rule bit_len_nonneg)
    have two: "(2::real) powi (bit_len (n div 2) + 1) = 2 * 2 powi bit_len (n div 2)"
      by (simp add: power_int_add)
    have two': "(2::real) powi (bit_len (n div 2)) = 2 * 2 powi (bit_len (n div 2) - 1)"
      by (simp add: power_int_diff)
    have ip: "(2::real) powi (bit_len (n div 2)) = real_of_int (2 ^ nat (bit_len (n div 2)))"
      using nn by (simp add: power_int_def)
    have "n div 2 + 1 \<le> 2 ^ nat (bit_len (n div 2))"
      using ih(2) unfolding ip of_int_less_iff by simp
    then have "n < 2 * 2 ^ nat (bit_len (n div 2))" by linarith
    then have "real_of_int n < 2 * 2 powi bit_len (n div 2)"
      unfolding ip by (metis of_int_less_iff of_int_mult of_int_numeral)
    moreover have "2 * real_of_int (n div 2) \<le> real_of_int n" by linarith
    ultimately show ?thesis using ih(1) two two' unfolding bl by simp
  qed
qed

lemma log2_ratio_flog2:
  assumes "0 < n" and "0 < d"
  shows "log2_ratio n d = flog2 (of_int n / of_int d)"
proof -
  define k where "k = bit_len n - bit_len d"
  let ?x = "real_of_int n / real_of_int d"
  have n: "2 powi (bit_len n - 1) \<le> real_of_int n" "real_of_int n < 2 powi bit_len n"
    and d: "2 powi (bit_len d - 1) \<le> real_of_int d" "real_of_int d < 2 powi bit_len d"
    using bit_len_bounds [OF assms(1)] bit_len_bounds [OF assms(2)] by auto
  have pos: "0 < real_of_int n" "0 < real_of_int d" using assms by auto
  have "?x < 2 powi bit_len n / 2 powi (bit_len d - 1)"
    using n(2) d(1) pos by (intro frac_less) auto
  also have "\<dots> = 2 powi (k + 1)"
    by (simp add: k_def power_int_diff power_int_add)
  finally have upper: "?x < 2 powi (k + 1)" .
  have "2 powi (k - 1) = 2 powi (bit_len n - 1) / (2::real) powi bit_len d"
    by (simp add: k_def power_int_diff)
  also have "\<dots> < ?x"
    using n(1) d(2) pos by (intro frac_less2) auto
  finally have lower: "2 powi (k - 1) < ?x" .
  have test: "(if 0 \<le> k then d * 2 ^ nat k \<le> n else d \<le> n * 2 ^ nat (- k)) \<longleftrightarrow> 2 powi k \<le> ?x"
  proof (cases "0 \<le> k")
    case True
    have "2 powi k \<le> ?x \<longleftrightarrow> real_of_int (d * 2 ^ nat k) \<le> real_of_int n"
      using True pos by (simp add: powi_nonneg field_simps)
    with True show ?thesis by (simp only: of_int_le_iff if_True)
  next
    case False
    have "2 powi k \<le> ?x \<longleftrightarrow> real_of_int d \<le> real_of_int (n * 2 ^ nat (- k))"
      using False pos by (simp add: powi_neg field_simps)
    with False show ?thesis by (simp only: of_int_le_iff if_False)
  qed
  have x: "0 < ?x" using pos by simp
  show ?thesis
  proof (cases "2 powi k \<le> ?x")
    case True
    then have "flog2 ?x = k" using upper flog2_iff [OF x] by simp
    then show ?thesis using True test unfolding log2_ratio_def Let_def k_def [symmetric] by simp
  next
    case False
    then have "flog2 ?x = k - 1" using lower flog2_iff [OF x] by simp
    then show ?thesis using False test unfolding log2_ratio_def Let_def k_def [symmetric] by simp
  qed
qed

lemma powi_2_mono: "a \<le> b \<Longrightarrow> (2::real) powi a \<le> 2 powi b"
  by (intro power_int_increasing) auto

lemma powi_2_pos [simp]: "0 < (2::real) powi a"
  by (simp add: zero_less_power_int)

lemma ulp_exp_bounds:
  assumes "0 < x"
  shows "x < 2 powi (ulp_exp x + 53)"
    and "ulp_exp x = - 1074 \<or> 2 powi (ulp_exp x + 52) \<le> x"
proof -
  have "x < 2 powi (flog2 x + 1)" using flog2_bounds [OF assms] by simp
  also have "\<dots> \<le> 2 powi (ulp_exp x + 53)"
    by (intro powi_2_mono) (simp add: ulp_exp_def)
  finally show "x < 2 powi (ulp_exp x + 53)" .
  show "ulp_exp x = - 1074 \<or> 2 powi (ulp_exp x + 52) \<le> x"
    using flog2_bounds [OF assms] by (auto simp: ulp_exp_def max_def)
qed

lemma ulp_exp_mono: "0 < x \<Longrightarrow> x \<le> y \<Longrightarrow> ulp_exp x \<le> ulp_exp y"
  using flog2_mono [of x y] by (simp add: ulp_exp_def)

lemma powi_53: "(2::real) powi (e + 53) = of_int (2 ^ 53) * 2 powi e"
  by (simp add: power_int_add)

lemma powi_52: "(2::real) powi (e + 52) = of_int (2 ^ 52) * 2 powi e"
  by (simp add: power_int_add)

text \<open>The rounded mantissa lies in the range of a 53-bit mantissa, its upper end included.\<close>

lemma rne_mantissa:
  assumes "0 < x"
  shows "0 \<le> rne (x / 2 powi ulp_exp x)"
    and "rne (x / 2 powi ulp_exp x) \<le> 2 ^ 53"
    and "ulp_exp x = - 1074 \<or> 2 ^ 52 \<le> rne (x / 2 powi ulp_exp x)"
proof -
  show "0 \<le> rne (x / 2 powi ulp_exp x)"
    using assms by (intro rne_ge_int) simp
  show "rne (x / 2 powi ulp_exp x) \<le> 2 ^ 53"
    using ulp_exp_bounds(1) [OF assms] unfolding powi_53
    by (intro rne_le_int) (simp add: pos_divide_le_eq)
  show "ulp_exp x = - 1074 \<or> 2 ^ 52 \<le> rne (x / 2 powi ulp_exp x)"
    using ulp_exp_bounds(2) [OF assms] unfolding powi_52
    by (auto intro!: rne_ge_int simp: pos_le_divide_eq)
qed

lemma rnd_0 [simp]: "rnd 0 = 0"
  using rne_of_int [of 0] by (simp add: rnd_def)

lemma rnd_nonneg: "0 \<le> x \<Longrightarrow> 0 \<le> rnd x"
proof (cases "x = 0")
  case False
  assume "0 \<le> x"
  with False have "0 \<le> rne (x / 2 powi ulp_exp x)" by (intro rne_mantissa(1)) simp
  then show ?thesis by (simp add: rnd_def)
qed simp

lemma rnd_mono_pos:
  assumes "0 < x" and "x \<le> y"
  shows "rnd x \<le> rnd y"
proof (cases "ulp_exp x = ulp_exp y")
  case True
  have "rne (x / 2 powi ulp_exp y) \<le> rne (y / 2 powi ulp_exp y)"
    using assms by (intro rne_mono divide_right_mono) auto
  with True show ?thesis by (simp add: rnd_def)
next
  case False
  with ulp_exp_mono [OF assms] have lt: "ulp_exp x < ulp_exp y" by simp
  then have hi: "ulp_exp y \<noteq> - 1074" by (auto simp: ulp_exp_def)
  have y: "0 < y" using assms by simp
  have "rnd x \<le> of_int (2 ^ 53) * 2 powi ulp_exp x"
    unfolding rnd_def using rne_mantissa(2) [OF assms(1)]
    by (intro mult_right_mono) (simp_all only: of_int_le_iff, simp)
  also have "\<dots> = 2 powi (ulp_exp x + 53)" by (simp only: powi_53)
  also have "\<dots> \<le> 2 powi (ulp_exp y + 52)" using lt by (intro powi_2_mono) simp
  also have "\<dots> = of_int (2 ^ 52) * 2 powi ulp_exp y" by (simp only: powi_52)
  also have "\<dots> \<le> rnd y"
    unfolding rnd_def using rne_mantissa(3) [OF y] hi
    by (intro mult_right_mono) (simp_all only: of_int_le_iff, simp_all)
  finally show ?thesis .
qed

lemma rnd_mono: "0 \<le> x \<Longrightarrow> x \<le> y \<Longrightarrow> rnd x \<le> rnd y"
  using rnd_mono_pos [of x y] rnd_nonneg [of y] by (cases "x = 0") auto

lemma rnd_error:
  assumes "0 < x"
  shows "\<bar>rnd x - x\<bar> \<le> 2 powi ulp_exp x / 2"
proof -
  let ?u = "2 powi ulp_exp x :: real"
  have "rnd x - x = (of_int (rne (x / ?u)) - x / ?u) * ?u"
    by (simp add: rnd_def field_simps)
  then have "\<bar>rnd x - x\<bar> = \<bar>of_int (rne (x / ?u)) - x / ?u\<bar> * ?u"
    by (simp add: abs_mult)
  also have "\<dots> \<le> 1 / 2 * ?u" by (intro mult_right_mono rne_error) simp
  finally show ?thesis by simp
qed

lemma rnd_rel_error:
  assumes "2 powi (- 1022) \<le> x"
  shows "\<bar>rnd x - x\<bar> \<le> x / 2 ^ 53"
proof -
  have x: "0 < x" using assms powi_2_pos [of "- 1022"] by linarith
  have "- 1022 \<le> flog2 x"
  proof (rule ccontr)
    assume "\<not> - 1022 \<le> flog2 x"
    then have "(2::real) powi (flog2 x + 1) \<le> 2 powi (- 1022)" by (intro powi_2_mono) simp
    with assms flog2_bounds [OF x] show False by simp
  qed
  then have u: "ulp_exp x = flog2 x - 52" by (simp add: ulp_exp_def)
  have "2 powi ulp_exp x / 2 = 2 powi flog2 x / (2::real) ^ 53"
    by (simp add: u power_int_diff)
  also have "\<dots> \<le> x / 2 ^ 53" using flog2_bounds [OF x] by (intro divide_right_mono) auto
  finally show ?thesis using rnd_error [OF x] by simp
qed

text \<open>A representable value is its own rounding.\<close>

lemma rnd_exact:
  assumes m: "0 \<le> m" "m < 2 ^ 53" and e: "- 1074 \<le> e"
  shows "rnd (of_int m * 2 powi e) = of_int m * 2 powi e"
proof (cases "m = 0")
  case False
  let ?x = "of_int m * 2 powi e :: real"
  have x: "0 < ?x" using m False by simp
  have "?x < of_int (2 ^ 53) * 2 powi e"
    using m(2) by (intro mult_strict_right_mono) (simp_all only: of_int_less_iff, simp)
  then have "?x < 2 powi (e + 53)" by (simp only: powi_53)
  then have "2 powi flog2 ?x < (2::real) powi (e + 53)" using flog2_bounds [OF x] by linarith
  then have "flog2 ?x < e + 53" using powi_2_mono [of "e + 53" "flog2 ?x"] by linarith
  then have u: "ulp_exp ?x \<le> e" using e by (simp add: ulp_exp_def)
  have "?x / 2 powi ulp_exp ?x = of_int m * 2 powi (e - ulp_exp ?x)"
    by (simp add: power_int_diff)
  also have "\<dots> = of_int (m * 2 ^ nat (e - ulp_exp ?x))"
    using u by (simp add: powi_nonneg)
  finally have "rne (?x / 2 powi ulp_exp ?x) = m * 2 ^ nat (e - ulp_exp ?x)"
    by (simp only: rne_of_int)
  then have "rnd ?x = of_int (m * 2 ^ nat (e - ulp_exp ?x)) * 2 powi ulp_exp ?x"
    by (simp only: rnd_def)
  also have "\<dots> = of_int m * (2 powi (e - ulp_exp ?x) * 2 powi ulp_exp ?x)"
    using u by (simp add: powi_nonneg)
  also have "\<dots> = ?x" by (simp add: power_int_diff)
  finally show ?thesis .
qed simp

subsection \<open>The operations round the exact result\<close>

definition f64_max_pow :: real where
  "f64_max_pow = 2 powi 1024"

lemma round_ratio_mk:
  assumes n: "0 < n" and d: "0 < d"
  defines "x \<equiv> real_of_int n / real_of_int d"
  shows "round_ratio s n d = mk_f64 s (rne (x / 2 powi ulp_exp x)) (ulp_exp x)"
  using n by (simp add: round_ratio_def log2_ratio_flog2 [OF n d] div_pow_rne [OF d] x_def
      Let_def flip: ulp_exp_def)

lemma mk_f64_props:
  assumes "0 \<le> m" "m \<le> 2 ^ 53" "- 1074 \<le> e" "e = - 1074 \<or> 2 ^ 52 \<le> m"
  shows "wf_f64 (mk_f64 s m e)"
    and "finite_f64 (mk_f64 s m e) \<longleftrightarrow> of_int m * 2 powi e < f64_max_pow"
    and "finite_f64 (mk_f64 s m e) \<Longrightarrow> val (mk_f64 s m e) = sgn_of s * (of_int m * 2 powi e)"
    and "\<not> finite_f64 (mk_f64 s m e) \<Longrightarrow> mk_f64 s m e = Inf s"
proof -
  have big: "f64_max_pow \<le> of_int m * 2 powi e" if "972 \<le> e"
  proof -
    have "f64_max_pow \<le> 2 powi (e + 52)"
      unfolding f64_max_pow_def using that by (intro powi_2_mono) simp
    also have "\<dots> = of_int (2 ^ 52) * 2 powi e" by (simp only: powi_52)
    also have "\<dots> \<le> of_int m * 2 powi e"
      using assms(4) that by (intro mult_right_mono) (simp_all only: of_int_le_iff, auto)
    finally show ?thesis .
  qed
  have small: "of_int m * 2 powi e < f64_max_pow" if "e \<le> 971" "m < 2 ^ 53"
  proof -
    have "of_int m * 2 powi e < (of_int (2 ^ 53) * 2 powi e :: real)"
      using that(2) by (intro mult_strict_right_mono) (simp_all only: of_int_less_iff, simp)
    also have "\<dots> = 2 powi (e + 53)" by (simp only: powi_53)
    also have "\<dots> \<le> f64_max_pow"
      unfolding f64_max_pow_def using that(1) by (intro powi_2_mono) simp
    finally show ?thesis .
  qed
  have edge: "of_int (2 ^ 53) * 2 powi e < f64_max_pow \<longleftrightarrow> e < 971"
  proof
    assume "of_int (2 ^ 53) * 2 powi e < f64_max_pow"
    then have "(2::real) powi (e + 53) < 2 powi 1024" by (simp only: powi_53 f64_max_pow_def)
    then show "e < 971" using powi_2_mono [of 1024 "e + 53"] by (cases "e < 971") auto
  next
    assume "e < 971"
    then have "(2::real) powi (e + 53) < 2 powi 1024" by (intro power_int_strict_increasing) auto
    then show "of_int (2 ^ 53) * 2 powi e < f64_max_pow" by (simp only: powi_53 f64_max_pow_def)
  qed
  have dbl: "of_int (2 ^ 52) * 2 powi (e + 1) = of_int (2 ^ 53) * (2::real) powi e"
    by (simp add: power_int_add)
  consider "m = 2 ^ 53" | "m < 2 ^ 53" using assms(2) by fastforce
  note cs = this
  show "wf_f64 (mk_f64 s m e)"
    using cs assms by cases (auto simp: mk_f64_def)
  show "finite_f64 (mk_f64 s m e) \<longleftrightarrow> of_int m * 2 powi e < f64_max_pow"
    using cs
  proof cases
    case 1
    then show ?thesis using edge by (simp add: mk_f64_def)
  next
    case 2
    then show ?thesis using small [OF _ 2] big by (cases "e \<le> 971") (auto simp: mk_f64_def not_le)
  qed
  show "val (mk_f64 s m e) = sgn_of s * (of_int m * 2 powi e)" if "finite_f64 (mk_f64 s m e)"
    using cs that dbl by cases (auto simp: mk_f64_def split: if_splits)
  show "mk_f64 s m e = Inf s" if "\<not> finite_f64 (mk_f64 s m e)"
    using that by (auto simp: mk_f64_def split: if_splits prod.splits)
qed

lemma round_ratio_props:
  assumes n: "0 \<le> n" and d: "0 < d"
  defines "x \<equiv> real_of_int n / real_of_int d"
  shows "wf_f64 (round_ratio s n d)"
    and "finite_f64 (round_ratio s n d) \<longleftrightarrow> rnd x < f64_max_pow"
    and "finite_f64 (round_ratio s n d) \<Longrightarrow> val (round_ratio s n d) = sgn_of s * rnd x"
    and "\<not> finite_f64 (round_ratio s n d) \<Longrightarrow> round_ratio s n d = Inf s"
proof -
  have "wf_f64 (round_ratio s n d)
    \<and> (finite_f64 (round_ratio s n d) \<longleftrightarrow> rnd x < f64_max_pow)
    \<and> (finite_f64 (round_ratio s n d) \<longrightarrow> val (round_ratio s n d) = sgn_of s * rnd x)
    \<and> (\<not> finite_f64 (round_ratio s n d) \<longrightarrow> round_ratio s n d = Inf s)"
  proof (cases "n = 0")
    case True
    then show ?thesis by (simp add: round_ratio_def x_def f64_max_pow_def)
  next
    case False
    with n have n': "0 < n" by simp
    have x: "0 < x" using n' d by (simp add: x_def)
    have e: "- 1074 \<le> ulp_exp x" by (simp add: ulp_exp_def)
    have rr: "round_ratio s n d = mk_f64 s (rne (x / 2 powi ulp_exp x)) (ulp_exp x)"
      unfolding x_def by (rule round_ratio_mk [OF n' d])
    note mk_f64_props [OF rne_mantissa(1,2) [OF x] e rne_mantissa(3) [OF x], of s]
    then show ?thesis unfolding rr rnd_def by blast
  qed
  then show "wf_f64 (round_ratio s n d)"
    and "finite_f64 (round_ratio s n d) \<longleftrightarrow> rnd x < f64_max_pow"
    and "finite_f64 (round_ratio s n d) \<Longrightarrow> val (round_ratio s n d) = sgn_of s * rnd x"
    and "\<not> finite_f64 (round_ratio s n d) \<Longrightarrow> round_ratio s n d = Inf s"
    by auto
qed

lemma round_scaled_props:
  fixes e :: int
  assumes n: "0 \<le> n" and d: "0 < d"
  defines "x \<equiv> real_of_int n / real_of_int d * 2 powi e"
  shows "wf_f64 (round_scaled s n d e)"
    and "finite_f64 (round_scaled s n d e) \<longleftrightarrow> rnd x < f64_max_pow"
    and "finite_f64 (round_scaled s n d e) \<Longrightarrow> val (round_scaled s n d e) = sgn_of s * rnd x"
    and "\<not> finite_f64 (round_scaled s n d e) \<Longrightarrow> round_scaled s n d e = Inf s"
proof -
  have "\<exists>n' d'. 0 \<le> n' \<and> 0 < d' \<and> round_scaled s n d e = round_ratio s n' d'
    \<and> x = real_of_int n' / real_of_int d'"
  proof (cases "0 \<le> e")
    case True
    then show ?thesis using n d unfolding x_def
      by (intro exI [of _ "n * 2 ^ nat e"] exI [of _ d]) (simp add: round_scaled_def powi_nonneg)
  next
    case False
    then show ?thesis using n d unfolding x_def
      by (intro exI [of _ n] exI [of _ "d * 2 ^ nat (- e)"]) (simp add: round_scaled_def powi_neg)
  qed
  then obtain n' d' where *: "0 \<le> n'" "0 < d'" "round_scaled s n d e = round_ratio s n' d'"
    "x = real_of_int n' / real_of_int d'" by blast
  show "wf_f64 (round_scaled s n d e)"
    and "finite_f64 (round_scaled s n d e) \<longleftrightarrow> rnd x < f64_max_pow"
    and "finite_f64 (round_scaled s n d e) \<Longrightarrow> val (round_scaled s n d e) = sgn_of s * rnd x"
    and "\<not> finite_f64 (round_scaled s n d e) \<Longrightarrow> round_scaled s n d e = Inf s"
    using round_ratio_props [OF *(1,2), of s] unfolding *(3,4) by blast+
qed

text \<open>Rounding of signed values, and truncation towards zero.\<close>

definition rnds :: "real \<Rightarrow> real" where
  "rnds x = (if x < 0 then - rnd (- x) else rnd x)"

definition rtrunc :: "real \<Rightarrow> int" where
  "rtrunc x = (if x < 0 then - \<lfloor>- x\<rfloor> else \<lfloor>x\<rfloor>)"

lemma rnds_0 [simp]: "rnds 0 = 0"
  by (simp add: rnds_def)

lemma rnds_nonneg_eq: "0 \<le> x \<Longrightarrow> rnds x = rnd x"
  by (simp add: rnds_def)

lemma rnds_abs: "\<bar>rnds x\<bar> = rnd \<bar>x\<bar>"
  using rnd_nonneg [of x] rnd_nonneg [of "- x"] by (auto simp: rnds_def)

lemma rnds_uminus: "rnds (- x) = - rnds x"
  by (auto simp: rnds_def)

lemma rnds_nonneg: "0 \<le> x \<Longrightarrow> 0 \<le> rnds x"
  using rnd_nonneg [of x] by (simp add: rnds_def)

lemma rnds_mono: "x \<le> y \<Longrightarrow> rnds x \<le> rnds y"
  using rnd_mono [of x y] rnd_mono [of "- y" "- x"] rnd_nonneg [of y] rnd_nonneg [of "- x"]
  by (auto simp: rnds_def)

lemma rnds_exact:
  assumes "\<bar>m\<bar> < 2 ^ 53" and "- 1074 \<le> e"
  shows "rnds (of_int m * 2 powi e) = of_int m * 2 powi e"
proof (cases "m < 0")
  case True
  then have "rnds (of_int m * 2 powi e) = - rnd (of_int (- m) * 2 powi e)"
    using powi_2_pos [of e] by (simp add: rnds_def mult_less_0_iff)
  then show ?thesis using rnd_exact [of "- m" e] assms True by simp
next
  case False
  then have "rnds (of_int m * 2 powi e) = rnd (of_int m * 2 powi e)"
    by (intro rnds_nonneg_eq) simp
  with False show ?thesis using rnd_exact [of m e] assms by simp
qed

lemma rnds_int: "\<bar>i\<bar> < 2 ^ 53 \<Longrightarrow> rnds (of_int i) = of_int i"
  using rnds_exact [of i 0] by simp

lemma rnds_rel_error:
  assumes "2 powi (- 1022) \<le> \<bar>x\<bar>"
  shows "\<bar>rnds x - x\<bar> \<le> \<bar>x\<bar> / 2 ^ 53"
  using rnd_rel_error [OF assms] by (cases "x < 0") (auto simp: rnds_def)

lemma rtrunc_mono: "x \<le> y \<Longrightarrow> rtrunc x \<le> rtrunc y"
proof -
  assume le: "x \<le> y"
  show ?thesis
  proof (cases "x < 0 \<and> 0 \<le> y")
    case True
    then have "0 \<le> \<lfloor>- x\<rfloor>" "0 \<le> \<lfloor>y\<rfloor>" by auto
    moreover from True have "rtrunc x = - \<lfloor>- x\<rfloor>" "rtrunc y = \<lfloor>y\<rfloor>" by (auto simp: rtrunc_def)
    ultimately show ?thesis by linarith
  next
    case False
    with le show ?thesis by (auto simp: rtrunc_def intro: floor_mono)
  qed
qed

lemma rtrunc_of_int [simp]: "rtrunc (of_int i) = i"
  by (simp add: rtrunc_def flip: of_int_minus)

lemma rtrunc_error: "\<bar>of_int (rtrunc x) - x\<bar> < 1"
  unfolding rtrunc_def by (auto simp: abs_less_iff; linarith)

lemma sgn_of_mult: "sgn_of (s \<noteq> t) = sgn_of s * sgn_of t"
  by (auto simp: sgn_of_def)

lemma sgn_of_rnds: "0 \<le> x \<Longrightarrow> sgn_of s * rnd x = rnds (sgn_of s * x)"
  by (cases "x = 0") (auto simp: sgn_of_def rnds_def)

lemma val_abs: "wf_f64 (Fin s m e) \<Longrightarrow> \<bar>val (Fin s m e)\<bar> = of_int m * 2 powi e"
  by (simp add: sgn_of_def abs_mult)

lemma f64_mult_props:
  assumes "wf_f64 x" "wf_f64 y" "finite_f64 x" "finite_f64 y"
  shows "wf_f64 (f64_mult x y)"
    and "finite_f64 (f64_mult x y) \<longleftrightarrow> \<bar>rnds (val x * val y)\<bar> < f64_max_pow"
    and "finite_f64 (f64_mult x y) \<Longrightarrow> val (f64_mult x y) = rnds (val x * val y)"
proof -
  obtain s m e t m' e' where xy: "x = Fin s m e" "y = Fin t m' e'"
    using assms by (cases x; cases y) auto
  have m: "0 \<le> m" "0 \<le> m'" using assms(1,2) by (auto simp: xy)
  define r where "r = real_of_int (m * m') / real_of_int 1 * 2 powi (e + e')"
  have r0: "0 \<le> r" using m by (simp add: r_def)
  have v: "val x * val y = sgn_of (s \<noteq> t) * r"
    by (simp add: xy sgn_of_mult r_def power_int_add del: not_iff)
  have a: "\<bar>val x * val y\<bar> = r" using r0 by (simp add: v abs_mult sgn_of_def)
  note P = round_scaled_props [of "m * m'" 1 "s \<noteq> t" "e + e'", folded r_def]
  show "wf_f64 (f64_mult x y)"
    using P(1) m by (simp add: xy)
  show "finite_f64 (f64_mult x y) \<longleftrightarrow> \<bar>rnds (val x * val y)\<bar> < f64_max_pow"
    using P(2) m unfolding rnds_abs a by (simp add: xy)
  show "val (f64_mult x y) = rnds (val x * val y)" if "finite_f64 (f64_mult x y)"
    using P(3) m that sgn_of_rnds [OF r0] unfolding v by (simp add: xy)
qed

lemma f64_div_props:
  assumes "wf_f64 x" "wf_f64 y" "finite_f64 x" "finite_f64 y" "val y \<noteq> 0"
  shows "wf_f64 (f64_div x y)"
    and "finite_f64 (f64_div x y) \<longleftrightarrow> \<bar>rnds (val x / val y)\<bar> < f64_max_pow"
    and "finite_f64 (f64_div x y) \<Longrightarrow> val (f64_div x y) = rnds (val x / val y)"
proof -
  obtain s m e t m' e' where xy: "x = Fin s m e" "y = Fin t m' e'"
    using assms by (cases x; cases y) auto
  have m: "0 \<le> m" "0 < m'" using assms by (auto simp: xy le_less)
  define r where "r = real_of_int m / real_of_int m' * 2 powi (e - e')"
  have r0: "0 \<le> r" using m by (simp add: r_def)
  have v: "val x / val y = sgn_of (s \<noteq> t) * r"
    by (auto simp: xy r_def power_int_diff sgn_of_def)
  have a: "\<bar>val x / val y\<bar> = r" using r0 by (simp add: v abs_mult sgn_of_def)
  note P = round_scaled_props [of m m' "s \<noteq> t" "e - e'", folded r_def]
  show "wf_f64 (f64_div x y)"
    using P(1) m by (simp add: xy)
  show "finite_f64 (f64_div x y) \<longleftrightarrow> \<bar>rnds (val x / val y)\<bar> < f64_max_pow"
    using P(2) m unfolding rnds_abs a by (simp add: xy)
  show "val (f64_div x y) = rnds (val x / val y)" if "finite_f64 (f64_div x y)"
    using P(3) m that sgn_of_rnds [OF r0] unfolding v by (simp add: xy)
qed

lemma f64_max_pow_big: "\<bar>i\<bar> < 2 ^ 53 \<Longrightarrow> \<bar>real_of_int i\<bar> < f64_max_pow"
proof -
  assume "\<bar>i\<bar> < 2 ^ 53"
  then have "real_of_int \<bar>i\<bar> < of_int (2 ^ 53)" by (simp only: of_int_less_iff)
  also have "\<dots> = 2 powi 53" by (simp add: powi_nonneg)
  also have "\<dots> \<le> f64_max_pow" unfolding f64_max_pow_def by (intro powi_2_mono) simp
  finally show ?thesis by simp
qed

lemma f64_of_int_props:
  shows "wf_f64 (f64_of_int i)"
    and "finite_f64 (f64_of_int i) \<longleftrightarrow> \<bar>rnds (of_int i)\<bar> < f64_max_pow"
    and "finite_f64 (f64_of_int i) \<Longrightarrow> val (f64_of_int i) = rnds (of_int i)"
proof -
  have v: "real_of_int i = sgn_of (i < 0) * \<bar>real_of_int i\<bar>" by (simp add: sgn_of_def)
  note P = round_ratio_props [of "\<bar>i\<bar>" 1 "i < 0"]
  show "wf_f64 (f64_of_int i)" using P(1) by (simp add: f64_of_int_def)
  show "finite_f64 (f64_of_int i) \<longleftrightarrow> \<bar>rnds (of_int i)\<bar> < f64_max_pow"
    using P(2) by (simp add: f64_of_int_def rnds_abs)
  show "val (f64_of_int i) = rnds (of_int i)" if "finite_f64 (f64_of_int i)"
    using P(3) that sgn_of_rnds [of "\<bar>real_of_int i\<bar>" "i < 0"] v
    by (simp add: f64_of_int_def)
qed

lemma f64_of_int_exact:
  assumes "\<bar>i\<bar> < 2 ^ 53"
  shows "finite_f64 (f64_of_int i)" and "val (f64_of_int i) = of_int i"
proof -
  show fin: "finite_f64 (f64_of_int i)"
    using f64_max_pow_big [OF assms] by (simp add: f64_of_int_props rnds_int [OF assms])
  show "val (f64_of_int i) = of_int i"
    using f64_of_int_props(3) [OF fin] by (simp add: rnds_int [OF assms])
qed

lemma f64_trunc_val:
  assumes "wf_f64 x" "finite_f64 x"
  shows "f64_trunc x = rtrunc (val x)"
proof -
  obtain s m e where x: "x = Fin s m e" using assms by (cases x) auto
  have m: "0 \<le> m" using assms by (auto simp: x)
  define q where "q = (if 0 \<le> e then m * 2 ^ nat e else m div 2 ^ nat (- e))"
  have "\<lfloor>real_of_int m * 2 powi e\<rfloor> = q"
  proof (cases "0 \<le> e")
    case True
    then have "real_of_int m * 2 powi e = of_int q" by (simp add: q_def powi_nonneg)
    then show ?thesis by (simp only: floor_of_int)
  next
    case False
    then have "real_of_int m * 2 powi e = real_of_int m / real_of_int (2 ^ nat (- e))"
      by (simp add: powi_neg)
    also have "\<lfloor>\<dots>\<rfloor> = m div 2 ^ nat (- e)" by (rule floor_divide_of_int_eq)
    finally show ?thesis using False by (simp add: q_def)
  qed
  moreover have "0 \<le> real_of_int m * 2 powi e" using m by simp
  ultimately show ?thesis
    by (cases "real_of_int m * 2 powi e = 0") (auto simp: x rtrunc_def sgn_of_def Let_def q_def)
qed

text \<open>\<open>math.Round\<close> rounds the value half away from zero, exactly.\<close>

definition rround :: "real \<Rightarrow> int" where
  "rround x = (if x < 0 then - \<lfloor>- x + 1 / 2\<rfloor> else \<lfloor>x + 1 / 2\<rfloor>)"

lemma rround_mono: "x \<le> y \<Longrightarrow> rround x \<le> rround y"
proof -
  assume le: "x \<le> y"
  show ?thesis
  proof (cases "x < 0 \<and> 0 \<le> y")
    case True
    then have "0 \<le> \<lfloor>- x + 1 / 2\<rfloor>" "0 \<le> \<lfloor>y + 1 / 2\<rfloor>" by auto
    moreover from True have "rround x = - \<lfloor>- x + 1 / 2\<rfloor>" "rround y = \<lfloor>y + 1 / 2\<rfloor>"
      by (auto simp: rround_def)
    ultimately show ?thesis by linarith
  next
    case False
    with le show ?thesis by (auto simp: rround_def intro: floor_mono)
  qed
qed

lemma rround_of_int [simp]: "rround (of_int i) = i"
proof -
  have "\<lfloor>real_of_int j + 1 / 2\<rfloor> = j" for j by linarith
  from this [of i] this [of "- i"] show ?thesis by (simp add: rround_def)
qed

lemma half_quot_bound:
  fixes m :: int
  assumes m: "0 \<le> m" "m < 2 ^ 53"
  shows "(2 * m + 2 ^ k) div (2 * 2 ^ k) < 2 ^ 53"
proof -
  define q where "q = (2 * m + 2 ^ k) div (2 * 2 ^ k)"
  have "2 * m + 2 ^ k < 2 ^ 53 * (2 * 2 ^ k)"
  proof -
    have "(1::int) \<le> 2 ^ k" by simp
    then have "2 * m + 2 ^ k \<le> 2 * (2 ^ 53 - 1) + 2 ^ k" and "(2::int) ^ 53 * 2 \<le> 2 ^ 53 * 2 * 2 ^ k"
      using m by simp_all
    moreover have "(2::int) * (2 ^ 53 - 1) + 2 ^ k < 2 ^ 53 * (2 * 2 ^ k)"
    proof -
      have "(18014398509481983::int) * 1 \<le> 18014398509481983 * 2 ^ k"
        by (intro mult_left_mono) simp_all
      then have "18014398509481982 < (18014398509481983::int) * 2 ^ k" by linarith
      then show ?thesis by (simp add: mult.commute)
    qed
    ultimately show ?thesis by linarith
  qed
  moreover have "q * (2 * 2 ^ k) \<le> 2 * m + 2 ^ k"
  proof -
    have "0 \<le> (2 * m + 2 ^ k) mod (2 * 2 ^ k)" by simp
    then show ?thesis using div_mult_mod_eq [of "2 * m + 2 ^ k" "2 * 2 ^ k"] unfolding q_def by linarith
  qed
  ultimately have "q * (2 * 2 ^ k) < 2 ^ 53 * (2 * 2 ^ k)" by linarith
  then have "q < 2 ^ 53" by (rule mult_right_less_imp_less) simp
  then show ?thesis by (simp add: q_def)
qed

lemma math_Round_props:
  assumes "wf_f64 x" "finite_f64 x"
  shows "wf_f64 (math_Round x)" and "finite_f64 (math_Round x)"
    and "val (math_Round x) = of_int (rround (val x))"
proof -
  obtain s m e where x: "x = Fin s m e" using assms by (cases x) auto
  have m: "0 \<le> m" "m < 2 ^ 53" using assms by (auto simp: x)
  have "wf_f64 (math_Round x) \<and> finite_f64 (math_Round x)
    \<and> val (math_Round x) = of_int (rround (val x))"
  proof (cases "0 \<le> e")
    case True
    have "val x = of_int ((if s then - 1 else 1) * (m * 2 ^ nat e))"
      using True by (simp add: x sgn_of_def powi_nonneg)
    then have "of_int (rround (val x)) = val x" by (simp only: rround_of_int)
    with True assms show ?thesis by (simp add: x)
  next
    case False
    define k where "k = nat (- e)"
    define q where "q = (2 * m + 2 ^ k) div (2 * 2 ^ k)"
    have r: "math_Round x = round_ratio s q 1" using False by (simp add: x q_def k_def)
    have q0: "0 \<le> q" using m by (simp add: q_def pos_imp_zdiv_nonneg_iff)
    have qb: "q < 2 ^ 53" unfolding q_def by (rule half_quot_bound [OF m])
    have "real_of_int m * 2 powi e + 1 / 2 = real_of_int (2 * m + 2 ^ k) / real_of_int (2 * 2 ^ k)"
      using False by (simp add: powi_neg k_def field_simps)
    then have fl: "\<lfloor>real_of_int m * 2 powi e + 1 / 2\<rfloor> = q"
      unfolding q_def by (simp only: floor_divide_of_int_eq)
    have rd: "rnd (of_int q) = of_int q"
      using rnds_int [of q] q0 qb by (simp add: rnds_def)
    have fin: "finite_f64 (round_ratio s q 1)"
      using round_ratio_props(2) [OF q0, of 1 s] f64_max_pow_big [of q] q0 qb by (simp add: rd)
    have "val (round_ratio s q 1) = sgn_of s * of_int q"
      using round_ratio_props(3) [OF q0, of 1 s] fin by (simp add: rd)
    moreover have "rround (val x) = (if s then - q else q)"
    proof (cases "m = 0")
      case True
      then have "q = 0" using fl by simp
      with True show ?thesis using rround_of_int [of 0] by (simp add: x)
    next
      case False
      then have "0 < real_of_int m * 2 powi e" using m by simp
      then show ?thesis using fl by (simp add: x rround_def sgn_of_def)
    qed
    ultimately show ?thesis
      using round_ratio_props(1) [OF q0, of 1 s] fin by (simp add: r sgn_of_def)
  qed
  then show "wf_f64 (math_Round x)" and "finite_f64 (math_Round x)"
    and "val (math_Round x) = of_int (rround (val x))" by auto
qed

subsection \<open>Rounding depends on the ratio only, and is exact on float64 values\<close>

lemma round_ratio_cong:
  assumes "0 \<le> n" "0 < d" "0 \<le> n'" "0 < d'"
    and "real_of_int n / real_of_int d = real_of_int n' / real_of_int d'"
  shows "round_ratio s n d = round_ratio s n' d'"
proof (cases "n = 0")
  case True
  then have "real_of_int n' / real_of_int d' = 0" using assms(5) by simp
  then have "n' = 0" using assms(4) by simp
  with True show ?thesis by (simp add: round_ratio_def)
next
  case False
  then have "real_of_int n' / real_of_int d' \<noteq> 0" using assms(2,5) by (metis divide_eq_0_iff of_int_eq_0_iff less_irrefl)
  then have "0 < n'" using assms(3) by (cases "n' = 0") auto
  then show ?thesis
    using False assms by (simp add: round_ratio_mk)
qed

lemma ulp_exp_wf:
  assumes "wf_f64 (Fin s m e)" "m \<noteq> 0"
  shows "ulp_exp (of_int m * 2 powi e) = e"
proof -
  let ?x = "real_of_int m * 2 powi e"
  have m: "0 < m" "m < 2 ^ 53" "- 1074 \<le> e" "2 ^ 52 \<le> m \<or> e = - 1074" using assms by auto
  then have x: "0 < ?x" by simp
  have up: "?x < 2 powi (e + 53)"
  proof -
    have "real_of_int m < of_int (2 ^ 53)" using m(2) by (simp only: of_int_less_iff)
    then have "?x < of_int (2 ^ 53) * 2 powi e" by (intro mult_strict_right_mono) simp_all
    then show ?thesis by (simp only: powi_53)
  qed
  have "2 powi flog2 ?x < (2::real) powi (e + 53)" using flog2_bounds [OF x] up by linarith
  then have le: "flog2 ?x < e + 53" using powi_2_mono [of "e + 53" "flog2 ?x"] by linarith
  show ?thesis
  proof (cases "2 ^ 52 \<le> m")
    case True
    then have "real_of_int (2 ^ 52) * 2 powi e \<le> ?x"
      by (intro mult_right_mono) (simp_all only: of_int_le_iff, simp)
    then have "2 powi (e + 52) \<le> ?x" by (simp only: powi_52)
    then have "2 powi (e + 52) < (2::real) powi (flog2 ?x + 1)" using flog2_bounds [OF x] by linarith
    then have "e + 52 < flog2 ?x + 1" using powi_2_mono [of "flog2 ?x + 1" "e + 52"] by linarith
    then show ?thesis using le m(3) by (simp add: ulp_exp_def)
  next
    case False
    then show ?thesis using m(4) le by (simp add: ulp_exp_def)
  qed
qed

lemma round_ratio_exact:
  assumes "wf_f64 (Fin s m e)" "m \<noteq> 0" "0 \<le> n" "0 < d"
    and "real_of_int n / real_of_int d = of_int m * 2 powi e"
  shows "round_ratio s n d = Fin s m e"
proof -
  have m: "0 < m" "m < 2 ^ 53" "e \<le> 971" using assms(1,2) by auto
  then have "real_of_int n / real_of_int d \<noteq> 0" using assms(5) by simp
  then have n: "0 < n" using assms(3) by (cases "n = 0") auto
  have "rne (of_int m * 2 powi e / 2 powi e) = m" by simp
  then have "round_ratio s n d = mk_f64 s m e"
    using round_ratio_mk [OF n assms(4), of s] ulp_exp_wf [OF assms(1,2)] by (simp add: assms(5))
  then show ?thesis using m by (simp add: mk_f64_def)
qed

definition set_sign :: "bool \<Rightarrow> f64 \<Rightarrow> f64" where
  "set_sign s x = (case x of NaN \<Rightarrow> NaN | Inf _ \<Rightarrow> Inf s | Fin _ m e \<Rightarrow> Fin s m e)"

lemma round_ratio_sign: "round_ratio s n d = set_sign s (round_ratio False n d)"
proof -
  have "mk_f64 s m e = set_sign s (mk_f64 False m e)" for m e
    by (simp add: mk_f64_def set_sign_def split: prod.split)
  from this [of "div_pow n d (max (- 1074) (log2_ratio n d - 52))"] show ?thesis
    by (cases "n = 0") (simp_all only: round_ratio_def Let_def if_True if_False, simp add: set_sign_def)
qed

end
