(* ===== verification/Go_Strconv.thy ===== *)
theory Go_Strconv
  imports Prelude "HOL-Library.Sublist"
begin

section \<open>Go's strconv, strings and encoding/hex\<close>

text \<open>
  What the repository uses of them: decimal printing and parsing of integers,
  hexadecimal printing of bytes, and the string functions behind the /proc parsers and the
  key comparison.
\<close>

subsection \<open>strconv.FormatInt, base 10\<close>

definition digit_char :: "int \<Rightarrow> char" where
  "digit_char d = ''0123456789'' ! nat d"

function dec_digits :: "int \<Rightarrow> string" where
  "dec_digits n = (if n < 10 then [digit_char n] else dec_digits (n div 10) @ [digit_char (n mod 10)])"
  by pat_completeness auto
termination
  by (relation "measure nat") auto

declare dec_digits.simps [simp del]

definition FormatInt :: "int64 \<Rightarrow> string" where
  "FormatInt w = (let i = sint w in if i < 0 then ''-'' @ dec_digits (- i) else dec_digits i)"

text \<open>\<open>%d\<close> of an \<open>int\<close> that is a count or a length.\<close>

definition dec_nat :: "nat \<Rightarrow> string" where
  "dec_nat n = dec_digits (int n)"

subsection \<open>strconv.ParseUint and strconv.Atoi\<close>

datatype num_error = ErrSyntax | ErrRange

definition digit_val :: "char \<Rightarrow> int option" where
  "digit_val c = (let k = of_char c in if 48 \<le> k \<and> k \<le> 57 then Some (k - 48) else None)"

definition max_uint64 :: int where
  "max_uint64 = 18446744073709551615"

text \<open>
  The loop of \<open>ParseUint(s, 10, 64)\<close>: it stops at the first byte that is not a digit, or
  when the next digit would pass the largest \<open>uint64\<close>.
\<close>

fun parse_uint_loop :: "int \<Rightarrow> string \<Rightarrow> num_error + int" where
  "parse_uint_loop n [] = Inr n"
| "parse_uint_loop n (c # cs) =
     (case digit_val c of
        None \<Rightarrow> Inl ErrSyntax
      | Some d \<Rightarrow>
          if max_uint64 div 10 + 1 \<le> n then Inl ErrRange
          else let n1 = n * 10 + d in
            if max_uint64 < n1 then Inl ErrRange else parse_uint_loop n1 cs)"

definition ParseUint :: "string \<Rightarrow> num_error + int" where
  "ParseUint s = (if s = [] then Inl ErrSyntax else parse_uint_loop 0 s)"

definition signed_range :: "bool \<Rightarrow> num_error + int \<Rightarrow> num_error + int" where
  "signed_range neg r =
     (case r of
        Inl e \<Rightarrow> Inl e
      | Inr n \<Rightarrow>
          if \<not> neg \<and> 2 ^ 63 \<le> n then Inl ErrRange
          else if neg \<and> 2 ^ 63 < n then Inl ErrRange
          else Inr (if neg then - n else n))"

fun Atoi :: "string \<Rightarrow> num_error + int" where
  "Atoi [] = Inl ErrSyntax"
| "Atoi (c # cs) =
     (if c = CHR ''-'' then signed_range True (ParseUint cs)
      else if c = CHR ''+'' then signed_range False (ParseUint cs)
      else signed_range False (ParseUint (c # cs)))"

subsection \<open>Facts about decimal numbers\<close>

lemma digit_cases:
  "0 \<le> d \<Longrightarrow> d < 10 \<Longrightarrow>
     d = 0 \<or> d = 1 \<or> d = 2 \<or> d = 3 \<or> d = 4 \<or> d = 5 \<or> d = 6 \<or> d = 7 \<or> d = 8 \<or> d = (9::int)"
  by presburger

lemma digit_val_char: "0 \<le> d \<Longrightarrow> d < 10 \<Longrightarrow> digit_val (digit_char d) = Some d"
  by (drule (1) digit_cases, elim disjE; simp only:; code_simp)

lemma digit_char_range: "0 \<le> d \<Longrightarrow> d < 10 \<Longrightarrow> digit_char d \<in> set ''0123456789''"
  by (drule (1) digit_cases, elim disjE; simp only:; code_simp)

lemma dec_digits_set: "0 \<le> n \<Longrightarrow> set (dec_digits n) \<subseteq> set ''0123456789''"
proof (induction n rule: dec_digits.induct)
  case (1 n)
  show ?case
  proof (cases "n < 10")
    case True
    then show ?thesis using "1.prems" digit_char_range [of n] by (simp add: dec_digits.simps [of n])
  next
    case False
    then show ?thesis using "1" digit_char_range [of "n mod 10"]
      by (simp add: dec_digits.simps [of n])
  qed
qed

lemma dec_digits_nonempty: "dec_digits n \<noteq> []"
  by (subst dec_digits.simps) simp

lemma parse_uint_loop_append:
  "parse_uint_loop n (xs @ ys) =
     (case parse_uint_loop n xs of Inl e \<Rightarrow> Inl e | Inr m \<Rightarrow> parse_uint_loop m ys)"
  by (induction n xs rule: parse_uint_loop.induct) (auto simp: Let_def split: option.splits)

lemma parse_uint_loop_dec:
  "0 \<le> n \<Longrightarrow> n \<le> max_uint64 \<Longrightarrow> parse_uint_loop 0 (dec_digits n) = Inr n"
proof (induction n rule: dec_digits.induct)
  case (1 n)
  show ?case
  proof (cases "n < 10")
    case True
    then show ?thesis using "1.prems"
      by (simp add: dec_digits.simps [of n] digit_val_char max_uint64_def)
  next
    case False
    have q: "0 \<le> n div 10" "n div 10 \<le> max_uint64" "\<not> max_uint64 div 10 + 1 \<le> n div 10"
      using "1.prems" False by (auto simp: max_uint64_def)
    have "parse_uint_loop 0 (dec_digits (n div 10)) = Inr (n div 10)"
      by (rule "1.IH") (use False q in auto)
    then show ?thesis using False q "1.prems"
      by (simp add: dec_digits.simps [of n] parse_uint_loop_append digit_val_char Let_def)
  qed
qed

lemma ParseUint_dec: "0 \<le> n \<Longrightarrow> n \<le> max_uint64 \<Longrightarrow> ParseUint (dec_digits n) = Inr n"
  by (simp add: ParseUint_def dec_digits_nonempty parse_uint_loop_dec)

lemma parse_uint_loop_bounds:
  "parse_uint_loop n s = Inr m \<Longrightarrow> 0 \<le> n \<Longrightarrow> n \<le> max_uint64 \<Longrightarrow> n \<le> m \<and> m \<le> max_uint64"
proof (induction n s rule: parse_uint_loop.induct)
  case (2 n c cs)
  then show ?case
    by (fastforce simp: digit_val_def Let_def split: option.splits if_splits)
qed simp

lemma ParseUint_bounds: "ParseUint s = Inr m \<Longrightarrow> 0 \<le> m \<and> m \<le> max_uint64"
  using parse_uint_loop_bounds [of 0 s m]
  by (auto simp: ParseUint_def max_uint64_def split: if_splits)

interpretation uint_dec: codec dec_digits
  "\<lambda>s. case ParseUint s of Inl _ \<Rightarrow> None | Inr n \<Rightarrow> Some n" "\<lambda>n. 0 \<le> n \<and> n \<le> max_uint64"
  by unfold_locales (simp add: ParseUint_dec)

lemma dec_digits_no_sign:
  assumes "0 \<le> n" "dec_digits n = c # cs"
  shows "c \<noteq> CHR ''-''" "c \<noteq> CHR ''+''"
  using dec_digits_set [OF assms(1)] assms(2) by auto

lemma Atoi_FormatInt: "Atoi (FormatInt w) = Inr (sint w)"
proof (cases "sint w < 0")
  case True
  then have "ParseUint (dec_digits (- sint w)) = Inr (- sint w)"
    using sint_int64_range [of w] by (intro ParseUint_dec) (auto simp: max_uint64_def)
  with True show ?thesis using sint_int64_range [of w]
    by (simp add: FormatInt_def Let_def signed_range_def)
next
  case False
  then have p: "ParseUint (dec_digits (sint w)) = Inr (sint w)"
    using sint_int64_range [of w] by (intro ParseUint_dec) (auto simp: max_uint64_def)
  obtain c cs where c: "dec_digits (sint w) = c # cs"
    using dec_digits_nonempty [of "sint w"] by (cases "dec_digits (sint w)") auto
  show ?thesis using False p c dec_digits_no_sign [OF _ c] sint_int64_range [of w]
    by (simp add: FormatInt_def Let_def signed_range_def)
qed

interpretation int64_dec: codec FormatInt
  "\<lambda>s. case Atoi s of Inl _ \<Rightarrow> None | Inr n \<Rightarrow> Some (word_of_int n)" "\<lambda>_. True"
  by unfold_locales (simp add: Atoi_FormatInt)

lemma FormatInt_set: "set (FormatInt w) \<subseteq> set ''-0123456789''"
  using dec_digits_set [of "sint w"] dec_digits_set [of "- sint w"]
  by (auto simp: FormatInt_def Let_def)

lemma FormatInt_inj: "FormatInt v = FormatInt w \<Longrightarrow> v = w"
  by (rule int64_dec.enc_inject) auto

lemma FormatInt_no_bar: "CHR ''|'' \<notin> set (FormatInt w)"
  using FormatInt_set [of w] by auto

subsection \<open>encoding/hex\<close>

text \<open>\<open>hex.EncodeToString\<close>, which is also what \<open>%x\<close> prints for a byte array.\<close>

definition hex_digit :: "int \<Rightarrow> char" where
  "hex_digit d = ''0123456789abcdef'' ! nat d"

fun hex_EncodeToString :: "bytes \<Rightarrow> string" where
  "hex_EncodeToString [] = []"
| "hex_EncodeToString (b # bs) =
     hex_digit (of_char b div 16) # hex_digit (of_char b mod 16) # hex_EncodeToString bs"

text \<open>Its inverse on lower-case digits, for the proofs only.\<close>

definition hex_val :: "char \<Rightarrow> int option" where
  "hex_val c =
     (let k = of_char c in
      if 48 \<le> k \<and> k \<le> 57 then Some (k - 48)
      else if 97 \<le> k \<and> k \<le> 102 then Some (k - 87) else None)"

fun hex_decode :: "string \<Rightarrow> bytes option" where
  "hex_decode [] = Some []"
| "hex_decode [c] = None"
| "hex_decode (c # d # cs) =
     (case (hex_val c, hex_val d, hex_decode cs) of
        (Some a, Some b, Some bs) \<Rightarrow> Some (char_of (16 * a + b) # bs)
      | _ \<Rightarrow> None)"

lemma hex_digit_cases:
  "0 \<le> d \<Longrightarrow> d < 16 \<Longrightarrow>
     d = 0 \<or> d = 1 \<or> d = 2 \<or> d = 3 \<or> d = 4 \<or> d = 5 \<or> d = 6 \<or> d = 7 \<or> d = 8 \<or> d = 9
     \<or> d = 10 \<or> d = 11 \<or> d = 12 \<or> d = 13 \<or> d = 14 \<or> d = (15::int)"
  by presburger

lemma hex_val_digit: "0 \<le> d \<Longrightarrow> d < 16 \<Longrightarrow> hex_val (hex_digit d) = Some d"
  by (drule (1) hex_digit_cases, elim disjE; simp only:; code_simp)

lemma hex_digit_range: "0 \<le> d \<Longrightarrow> d < 16 \<Longrightarrow> hex_digit d \<in> set ''0123456789abcdef''"
  by (drule (1) hex_digit_cases, elim disjE; simp only:; code_simp)

lemma of_char_int_bounds: "0 \<le> (of_char c :: int)" "(of_char c :: int) < 256"
  using of_char_mod_256 [of c, where ?'a = int]
  by (metis pos_mod_bound pos_mod_sign zero_less_numeral)+

lemma nibble_bounds:
  "0 \<le> (of_char c :: int) div 16" "(of_char c :: int) div 16 < 16"
  "0 \<le> (of_char c :: int) mod 16" "(of_char c :: int) mod 16 < 16"
  using of_char_int_bounds [of c] by auto

lemma hex_decode_encode: "hex_decode (hex_EncodeToString bs) = Some bs"
  by (induction bs) (auto simp: hex_val_digit nibble_bounds)

interpretation hex: codec hex_EncodeToString hex_decode "\<lambda>_. True"
  by unfold_locales (rule hex_decode_encode)

lemma hex_inj: "hex_EncodeToString a = hex_EncodeToString b \<longleftrightarrow> a = b"
  using hex.enc_inject [of a b] by auto

lemma length_hex [simp]: "length (hex_EncodeToString bs) = 2 * length bs"
  by (induction bs) auto

lemma hex_set: "set (hex_EncodeToString bs) \<subseteq> set ''0123456789abcdef''"
proof (induction bs)
  case (Cons b bs)
  have "hex_digit (of_char b div 16) \<in> set ''0123456789abcdef''"
    and "hex_digit (of_char b mod 16) \<in> set ''0123456789abcdef''"
    by (intro hex_digit_range nibble_bounds)+
  with Cons show ?case
    by (simp only: hex_EncodeToString.simps list.set(2) insert_subset simp_thms)
qed simp

lemma hex_no_bar: "CHR ''|'' \<notin> set (hex_EncodeToString bs)"
  using hex_set [of bs] by auto

lemma hex_nonempty: "bs \<noteq> [] \<Longrightarrow> hex_EncodeToString bs \<noteq> []"
  by (cases bs) auto

end
