(* ===== verification/Go_Utf8.thy ===== *)
theory Go_Utf8
  imports Go_Strconv
begin

section \<open>Go's unicode/utf8 and strconv.Quote\<close>

text \<open>
  A rune is an \<open>int\<close>.  \<open>DecodeRune\<close> gives the first rune of a string and its width: a
  byte that starts no well-formed encoding is the replacement rune with width one.
\<close>

definition RuneError :: int where
  "RuneError = 65533"

definition in_bytes :: "int \<Rightarrow> int \<Rightarrow> char \<Rightarrow> bool" where
  "in_bytes lo hi c \<longleftrightarrow> lo \<le> of_char c \<and> of_char c \<le> hi"

text \<open>The range of the second byte of a long encoding, by its first byte.\<close>

definition second_ok :: "int \<Rightarrow> char \<Rightarrow> bool" where
  "second_ok x b =
     in_bytes (if x = 224 then 160 else if x = 240 then 144 else 128)
       (if x = 237 then 159 else if x = 244 then 143 else 191) b"

definition low6 :: "char \<Rightarrow> int" where
  "low6 c = of_char c - 128"

fun DecodeRune :: "string \<Rightarrow> int \<times> nat" where
  "DecodeRune [] = (RuneError, 0)"
| "DecodeRune (a # s) =
     (let x = of_char a in
      if x < 128 then (x, 1)
      else if 194 \<le> x \<and> x \<le> 223 then
        (case s of
           b # _ \<Rightarrow> if in_bytes 128 191 b then ((x - 192) * 64 + low6 b, 2) else (RuneError, 1)
         | _ \<Rightarrow> (RuneError, 1))
      else if 224 \<le> x \<and> x \<le> 239 then
        (case s of
           b # c # _ \<Rightarrow>
             if second_ok x b \<and> in_bytes 128 191 c
             then ((x - 224) * 4096 + low6 b * 64 + low6 c, 3) else (RuneError, 1)
         | _ \<Rightarrow> (RuneError, 1))
      else if 240 \<le> x \<and> x \<le> 244 then
        (case s of
           b # c # d # _ \<Rightarrow>
             if second_ok x b \<and> in_bytes 128 191 c \<and> in_bytes 128 191 d
             then ((x - 240) * 262144 + low6 b * 4096 + low6 c * 64 + low6 d, 4)
             else (RuneError, 1)
         | _ \<Rightarrow> (RuneError, 1))
      else (RuneError, 1))"

definition ValidRune :: "int \<Rightarrow> bool" where
  "ValidRune r \<longleftrightarrow> (0 \<le> r \<and> r < 55296) \<or> (57343 < r \<and> r \<le> 1114111)"

definition EncodeRune :: "int \<Rightarrow> string" where
  "EncodeRune r0 =
     (let r = (if ValidRune r0 then r0 else RuneError) in
      if r < 128 then [char_of r]
      else if r < 2048 then [char_of (192 + r div 64), char_of (128 + r mod 64)]
      else if r < 65536 then
        [char_of (224 + r div 4096), char_of (128 + r div 64 mod 64), char_of (128 + r mod 64)]
      else
        [char_of (240 + r div 262144), char_of (128 + r div 4096 mod 64),
         char_of (128 + r div 64 mod 64), char_of (128 + r mod 64)])"

lemma DecodeRune_width: "s \<noteq> [] \<Longrightarrow> 1 \<le> snd (DecodeRune s) \<and> snd (DecodeRune s) \<le> length s"
  by (cases s) (auto simp: Let_def split: list.splits)

lemma DecodeRune_pos: "0 < snd (DecodeRune (a # s))"
  using DecodeRune_width [of "a # s"] by simp

text \<open>The runes of a string with the bytes of each: what \<open>range\<close> over a string visits.\<close>

function runes :: "string \<Rightarrow> (int \<times> string) list" where
  "runes s =
     (if s = [] then []
      else let (r, w) = DecodeRune s in (r, take w s) # runes (drop w s))"
  by pat_completeness auto
termination
proof (relation "measure length")
  fix s x r w
  assume s: "s \<noteq> []" "x = DecodeRune s" "(r, w) = x"
  then have "w = snd (DecodeRune s)" by (metis snd_conv)
  then show "(drop w s, s) \<in> measure length" using DecodeRune_width [OF s(1)] s(1) by simp
qed simp

declare runes.simps [simp del]

definition ValidString :: "string \<Rightarrow> bool" where
  "ValidString s \<longleftrightarrow> list_all (\<lambda>(r, bs). \<not> (r = RuneError \<and> length bs = 1)) (runes s)"

subsection \<open>strconv.Quote, the verb \<open>%q\<close>\<close>

text \<open>
  \<open>print\<close> is \<open>strconv.IsPrint\<close> above Latin-1, a table of the Unicode data.
\<close>

definition IsPrint :: "(int \<Rightarrow> bool) \<Rightarrow> int \<Rightarrow> bool" where
  "IsPrint print r =
     (if r \<le> 255 then (32 \<le> r \<and> r < 127) \<or> (161 \<le> r \<and> r \<noteq> 173) else print r)"

fun hex_pad :: "nat \<Rightarrow> int \<Rightarrow> string" where
  "hex_pad 0 n = []"
| "hex_pad (Suc k) n = hex_pad k (n div 16) @ [hex_digit (n mod 16)]"

definition quote_rune :: "(int \<Rightarrow> bool) \<Rightarrow> int \<times> string \<Rightarrow> string" where
  "quote_rune print rb =
     (let (r, bs) = rb in
      if r = RuneError \<and> length bs = 1 then CHR 0x5C # CHR ''x'' # hex_pad 2 (of_char (hd bs))
      else if r = 34 \<or> r = 92 then CHR 0x5C # bs
      else if IsPrint print r then bs
      else if r = 7 then [CHR 0x5C, CHR ''a'']
      else if r = 8 then [CHR 0x5C, CHR ''b'']
      else if r = 12 then [CHR 0x5C, CHR ''f'']
      else if r = 10 then [CHR 0x5C, CHR ''n'']
      else if r = 13 then [CHR 0x5C, CHR ''r'']
      else if r = 9 then [CHR 0x5C, CHR ''t'']
      else if r = 11 then [CHR 0x5C, CHR ''v'']
      else if r < 32 \<or> r = 127 then CHR 0x5C # CHR ''x'' # hex_pad 2 r
      else if r < 65536 then CHR 0x5C # CHR ''u'' # hex_pad 4 r
      else CHR 0x5C # CHR ''U'' # hex_pad 8 r)"

definition strconv_Quote :: "(int \<Rightarrow> bool) \<Rightarrow> string \<Rightarrow> string" where
  "strconv_Quote print s =
     CHR 0x22 # concat (map (quote_rune print) (runes s)) @ [CHR 0x22]"

subsection \<open>Encoding and decoding\<close>

lemma of_char_of_int: "0 \<le> d \<Longrightarrow> d < 256 \<Longrightarrow> (of_char (char_of (d :: int)) :: int) = d"
  by (simp add: of_char_of)

lemma cont_byte:
  "0 \<le> d \<Longrightarrow> d < 64 \<Longrightarrow>
     in_bytes 128 191 (char_of (128 + d)) \<and> low6 (char_of (128 + d)) = (d :: int)"
  by (simp add: in_bytes_def low6_def of_char_of_int)

lemma sextet_ranges:
  "0 \<le> r mod 64" "r mod 64 < (64::int)" "0 \<le> r div 64 mod 64" "r div 64 mod 64 < (64::int)"
  "0 \<le> r div 4096 mod 64" "r div 4096 mod 64 < (64::int)"
  by auto

lemma join2: "r div 64 * 64 + r mod 64 = (r::int)"
  by simp

lemma join3: "r div 4096 * 4096 + r div 64 mod 64 * 64 + r mod 64 = (r::int)"
proof -
  have "r div 4096 = r div 64 div 64" by (simp flip: zdiv_zmult2_eq)
  then show ?thesis
    using div_mult_mod_eq [of r 64] div_mult_mod_eq [of "r div 64" 64] by linarith
qed

lemma div_step: "r div 64 = r div 4096 * 64 + r div 64 mod (64::int)"
proof -
  have "r div 4096 = r div 64 div 64" by (simp flip: zdiv_zmult2_eq)
  then show ?thesis using div_mult_mod_eq [of "r div 64" 64] by linarith
qed

lemma join4:
  "r div 262144 * 262144 + r div 4096 mod 64 * 4096 + r div 64 mod 64 * 64 + r mod 64 = (r::int)"
proof -
  have "r div 262144 = r div 4096 div 64" by (simp flip: zdiv_zmult2_eq)
  then show ?thesis
    using join3 [of r] div_mult_mod_eq [of "r div 4096" 64] by linarith
qed

lemma DecodeRune_3:
  assumes "224 \<le> x" "x \<le> 239" "second_ok x b" "in_bytes 128 191 c"
  shows "DecodeRune (char_of x # b # c # s) = ((x - 224) * 4096 + low6 b * 64 + low6 c, 3)"
  using assms by (simp add: of_char_of_int)

lemma DecodeRune_4:
  assumes "240 \<le> x" "x \<le> 244" "second_ok x b" "in_bytes 128 191 c" "in_bytes 128 191 d"
  shows "DecodeRune (char_of x # b # c # d # s)
    = ((x - 240) * 262144 + low6 b * 4096 + low6 c * 64 + low6 d, 4)"
  using assms by (simp add: of_char_of_int)

lemma second_ok_cont:
  assumes "0 \<le> d" "d < 64" "x = 224 \<Longrightarrow> 32 \<le> d" "x = 237 \<Longrightarrow> d < 32"
    "x = 240 \<Longrightarrow> 16 \<le> d" "x = 244 \<Longrightarrow> d < (16::int)"
  shows "second_ok x (char_of (128 + d))"
  using assms by (auto simp: second_ok_def in_bytes_def of_char_of_int)

lemma DecodeRune_Encode:
  assumes r: "ValidRune r"
  shows "DecodeRune (EncodeRune r @ s) = (r, length (EncodeRune r))"
proof -
  have r0: "0 \<le> r" "r \<le> 1114111" using r by (auto simp: ValidRune_def)
  consider "r < 128" | "128 \<le> r" "r < 2048" | "2048 \<le> r" "r < 65536" | "65536 \<le> r" by linarith
  then show ?thesis
  proof cases
    case 1
    then show ?thesis using r r0 by (simp add: EncodeRune_def Let_def of_char_of_int)
  next
    case 2
    have x: "194 \<le> 192 + r div 64" "192 + r div 64 \<le> 223" using 2 by linarith+
    then have "(of_char (char_of (192 + r div 64)) :: int) = 192 + r div 64"
      by (intro of_char_of_int) linarith+
    moreover have "EncodeRune r = [char_of (192 + r div 64), char_of (128 + r mod 64)]"
      using 2 r by (simp add: EncodeRune_def Let_def)
    ultimately show ?thesis
      using x cont_byte [of "r mod 64"] join2 [of r] by (simp add: Let_def)
  next
    case 3
    let ?x = "224 + r div 4096" and ?b = "r div 64 mod 64"
    have x: "224 \<le> ?x" "?x \<le> 239" using 3 by linarith+
    have e: "EncodeRune r = [char_of ?x, char_of (128 + ?b), char_of (128 + r mod 64)]"
      using 3 r by (simp add: EncodeRune_def Let_def)
    have ok: "second_ok ?x (char_of (128 + ?b))"
    proof (rule second_ok_cont)
      have b: "r div 64 = r div 4096 * 64 + ?b" by (rule div_step)
      have "32 \<le> r div 64" using 3 by linarith
      then show "32 \<le> ?b" if "?x = 224" using that b by linarith
      have "r div 64 < 864" if "r < 55296" using that by linarith
      moreover have "r < 55296" if "r div 4096 = 13"
        using that r unfolding ValidRune_def by linarith
      ultimately show "?b < 32" if "?x = 237" using that b by linarith
    qed (use x sextet_ranges in simp_all)
    have "DecodeRune (EncodeRune r @ s)
        = ((?x - 224) * 4096 + low6 (char_of (128 + ?b)) * 64 + low6 (char_of (128 + r mod 64)), 3)"
      unfolding e append_Cons append_Nil
      by (rule DecodeRune_3 [OF x ok]) (simp add: cont_byte)
    also have "\<dots> = (r, 3)"
      by (simp only: cont_byte sextet_ranges add_diff_cancel_left' join3)
    finally show ?thesis by (simp add: e)
  next
    case 4
    let ?x = "240 + r div 262144" and ?b = "r div 4096 mod 64"
    have x: "240 \<le> ?x" "?x \<le> 244" using 4 r0 by linarith+
    have e: "EncodeRune r = [char_of ?x, char_of (128 + ?b), char_of (128 + r div 64 mod 64),
        char_of (128 + r mod 64)]"
      using 4 r by (simp add: EncodeRune_def Let_def)
    have ok: "second_ok ?x (char_of (128 + ?b))"
    proof (rule second_ok_cont)
      have b: "r div 4096 = r div 262144 * 64 + ?b"
        using div_step [of "r div 64"] by (simp flip: zdiv_zmult2_eq)
      have "16 \<le> r div 4096" using 4 by linarith
      then show "16 \<le> ?b" if "?x = 240" using that b by linarith
      have "r div 4096 < 272" using r0 by linarith
      then show "?b < 16" if "?x = 244" using that b by linarith
    qed (use x sextet_ranges in simp_all)
    have "DecodeRune (EncodeRune r @ s)
        = ((?x - 240) * 262144 + low6 (char_of (128 + ?b)) * 4096
            + low6 (char_of (128 + r div 64 mod 64)) * 64 + low6 (char_of (128 + r mod 64)), 4)"
      unfolding e append_Cons append_Nil
      by (rule DecodeRune_4 [OF x ok]) (simp_all add: cont_byte)
    also have "\<dots> = (r, 4)"
      by (simp only: cont_byte sextet_ranges add_diff_cancel_left' join4)
    finally show ?thesis by (simp add: e)
  qed
qed

text \<open>A rune read with more than one byte, or an ASCII one, is the encoding of itself.\<close>

lemma EncodeRune_nonempty: "EncodeRune r \<noteq> []"
  by (simp add: EncodeRune_def Let_def)

lemma runes_Encode:
  assumes "ValidRune r"
  shows "runes (EncodeRune r @ s) = (r, EncodeRune r) # runes s"
  by (subst runes.simps) (simp add: DecodeRune_Encode [OF assms] EncodeRune_nonempty)

subsection \<open>The bytes of a rune that is not an error are its encoding\<close>

lemma split64:
  fixes a b :: int
  assumes "0 \<le> b" "b < 64"
  shows "(a * 64 + b) div 64 = a" "(a * 64 + b) mod 64 = b"
  using assms by simp_all

lemma split64_3:
  fixes a b c :: int
  assumes "0 \<le> b" "b < 64" "0 \<le> c" "c < 64"
  defines "r \<equiv> a * 4096 + b * 64 + c"
  shows "r mod 64 = c" "r div 64 = a * 64 + b" "r div 64 mod 64 = b" "r div 4096 = a"
proof -
  have r: "r = (a * 64 + b) * 64 + c" by (simp add: r_def)
  show m: "r mod 64 = c" unfolding r using assms(3,4) by (rule split64(2))
  show d: "r div 64 = a * 64 + b" unfolding r using assms(3,4) by (rule split64(1))
  show "r div 64 mod 64 = b" unfolding d using assms(1,2) by (rule split64(2))
  have "r div 4096 = r div 64 div 64" by (simp flip: zdiv_zmult2_eq)
  then show "r div 4096 = a" using split64(1) [OF assms(1,2), of a] by (simp only: d)
qed

lemma split64_4:
  fixes a b c d :: int
  assumes "0 \<le> b" "b < 64" "0 \<le> c" "c < 64" "0 \<le> d" "d < 64"
  defines "r \<equiv> a * 262144 + b * 4096 + c * 64 + d"
  shows "r mod 64 = d" "r div 64 mod 64 = c" "r div 4096 mod 64 = b" "r div 262144 = a"
proof -
  have r: "r = (a * 4096 + b * 64 + c) * 64 + d" by (simp add: r_def)
  show "r mod 64 = d" unfolding r using assms(5,6) by (rule split64(2))
  have q: "r div 64 = a * 4096 + b * 64 + c" unfolding r using assms(5,6) by (rule split64(1))
  show "r div 64 mod 64 = c" unfolding q using assms(1-4) by (rule split64_3(1))
  have "r div 4096 = r div 64 div 64" by (simp flip: zdiv_zmult2_eq)
  then show "r div 4096 mod 64 = b" using split64_3(3) [OF assms(1-4), of a] by (simp only: q)
  have "r div 262144 = r div 64 div 4096" by (simp flip: zdiv_zmult2_eq)
  then show "r div 262144 = a" using split64_3(4) [OF assms(1-4), of a] by (simp only: q)
qed

lemma cont_of_low6: "in_bytes 128 191 c \<Longrightarrow> char_of (128 + low6 c) = c \<and> 0 \<le> low6 c \<and> low6 c < 64"
  by (simp add: in_bytes_def low6_def)

lemma second_ok_low6:
  assumes "second_ok x b"
  shows "in_bytes 128 191 b" "x = 224 \<Longrightarrow> 32 \<le> low6 b" "x = 237 \<Longrightarrow> low6 b < 32"
    "x = 240 \<Longrightarrow> 16 \<le> low6 b" "x = 244 \<Longrightarrow> low6 b < 16"
  using assms by (auto simp: second_ok_def in_bytes_def low6_def split: if_splits)

lemma EncodeRune_2:
  assumes "194 \<le> (of_char a :: int)" "(of_char a :: int) \<le> (223::int)" "in_bytes 128 191 b"
  defines "r \<equiv> ((of_char a :: int) - 192) * 64 + low6 b"
  shows "ValidRune r \<and> EncodeRune r = [a, b]"
proof -
  note b = cont_of_low6 [OF assms(3)]
  have v: "128 \<le> r" "r < 2048" using assms(1,2) b by (auto simp: r_def)
  have "r div 64 = (of_char a :: int) - 192" "r mod 64 = low6 b"
    unfolding r_def using b by (simp_all only: split64)
  then show ?thesis using v b by (simp add: EncodeRune_def ValidRune_def)
qed

lemma EncodeRune_3:
  assumes "224 \<le> (of_char a :: int)" "(of_char a :: int) \<le> (239::int)" "second_ok ((of_char a :: int)) b" "in_bytes 128 191 c"
  defines "r \<equiv> ((of_char a :: int) - 224) * 4096 + low6 b * 64 + low6 c"
  shows "ValidRune r \<and> EncodeRune r = [a, b, c]"
proof -
  note s = second_ok_low6 [OF assms(3)]
  note b = cont_of_low6 [OF s(1)] and c = cont_of_low6 [OF assms(4)]
  consider "(of_char a :: int) = (224::int)" | "225 \<le> (of_char a :: int)" "(of_char a :: int) \<le> (236::int)"
    | "(of_char a :: int) = (237::int)" | "238 \<le> (of_char a :: int)" using assms(1) by linarith
  then have v: "2048 \<le> r \<and> r < 65536 \<and> (r < 55296 \<or> 57343 < r)"
  proof cases
    case 1
    then show ?thesis using s(2) b c by (auto simp: r_def)
  next
    case 3
    then show ?thesis using s(3) b c by (auto simp: r_def)
  qed (use assms(2) b c in \<open>auto simp: r_def\<close>)
  have d: "r mod 64 = low6 c" "r div 64 mod 64 = low6 b" "r div 4096 = (of_char a :: int) - 224"
    unfolding r_def using b c by (intro split64_3; simp)+
  have "ValidRune r" using v by (simp add: ValidRune_def)
  moreover from this have "EncodeRune r
      = [char_of (224 + r div 4096), char_of (128 + r div 64 mod 64), char_of (128 + r mod 64)]"
    using v by (simp add: EncodeRune_def Let_def)
  ultimately show ?thesis using b c by (simp add: d)
qed

lemma EncodeRune_4:
  assumes "240 \<le> (of_char a :: int)" "(of_char a :: int) \<le> (244::int)" "second_ok ((of_char a :: int)) b"
    "in_bytes 128 191 c" "in_bytes 128 191 d"
  defines "r \<equiv> ((of_char a :: int) - 240) * 262144 + low6 b * 4096 + low6 c * 64 + low6 d"
  shows "ValidRune r \<and> EncodeRune r = [a, b, c, d]"
proof -
  note s = second_ok_low6 [OF assms(3)]
  note b = cont_of_low6 [OF s(1)] and c = cont_of_low6 [OF assms(4)] and d = cont_of_low6 [OF assms(5)]
  consider "(of_char a :: int) = (240::int)" | "241 \<le> (of_char a :: int)" "(of_char a :: int) \<le> (243::int)"
    | "(of_char a :: int) = (244::int)" using assms(1,2) by linarith
  then have v: "65536 \<le> r \<and> r \<le> 1114111"
  proof cases
    case 1
    then show ?thesis using s(4) b c d by (auto simp: r_def)
  next
    case 3
    then show ?thesis using s(5) b c d by (auto simp: r_def)
  qed (use b c d in \<open>auto simp: r_def\<close>)
  have q: "r mod 64 = low6 d" "r div 64 mod 64 = low6 c" "r div 4096 mod 64 = low6 b"
    "r div 262144 = (of_char a :: int) - 240"
    unfolding r_def using b c d by (intro split64_4; simp)+
  have "ValidRune r" using v by (simp add: ValidRune_def)
  moreover from this have "EncodeRune r
      = [char_of (240 + r div 262144), char_of (128 + r div 4096 mod 64),
         char_of (128 + r div 64 mod 64), char_of (128 + r mod 64)]"
    using v by (simp add: EncodeRune_def Let_def)
  ultimately show ?thesis using b c d by (simp add: q)
qed

lemma DecodeRune_bytes:
  assumes "DecodeRune (a # s) = (r, w)" and "\<not> (r = RuneError \<and> w = 1)"
  shows "ValidRune r \<and> EncodeRune r = take w (a # s)"
proof -
  consider "(of_char a :: int) < 128" | "194 \<le> (of_char a :: int)" "(of_char a :: int) \<le> (223::int)"
    | "224 \<le> (of_char a :: int)" "(of_char a :: int) \<le> (239::int)" | "240 \<le> (of_char a :: int)" "(of_char a :: int) \<le> (244::int)"
    using assms by (fastforce simp: Let_def)
  then show ?thesis
  proof cases
    case 1
    then show ?thesis using assms of_char_int_bounds [of a] by (auto simp: ValidRune_def EncodeRune_def)
  next
    case 2
    then obtain b t where "s = b # t" "in_bytes 128 191 b" "w = 2"
      "r = ((of_char a :: int) - 192) * 64 + low6 b"
      using assms by (auto simp: Let_def split: list.splits if_splits)
    then show ?thesis using EncodeRune_2 [OF 2] by simp
  next
    case 3
    then obtain b c t where "s = b # c # t" "second_ok ((of_char a :: int)) b" "in_bytes 128 191 c" "w = 3"
      "r = ((of_char a :: int) - 224) * 4096 + low6 b * 64 + low6 c"
      using assms by (auto simp: Let_def split: list.splits if_splits)
    then show ?thesis using EncodeRune_3 [OF 3] by simp
  next
    case 4
    then obtain b c d t where "s = b # c # d # t" "second_ok ((of_char a :: int)) b" "in_bytes 128 191 c"
      "in_bytes 128 191 d" "w = 4"
      "r = ((of_char a :: int) - 240) * 262144 + low6 b * 4096 + low6 c * 64 + low6 d"
      using assms by (auto simp: Let_def split: list.splits if_splits)
    then show ?thesis using EncodeRune_4 [OF 4] by simp
  qed
qed

text \<open>The runes of well-formed text: each is valid and its bytes are its encoding.\<close>

definition good_rune :: "int \<times> string \<Rightarrow> bool" where
  "good_rune rb \<longleftrightarrow> ValidRune (fst rb) \<and> snd rb = EncodeRune (fst rb)"

lemma runes_concat: "concat (map snd (runes s)) = s"
proof (induction s rule: runes.induct)
  case (1 s)
  obtain r w where rw: "DecodeRune s = (r, w)" by (cases "DecodeRune s")
  show ?case using 1 [OF _ rw [symmetric]] by (subst runes.simps) (simp add: rw)
qed

lemma ValidString_good: "ValidString s \<Longrightarrow> list_all good_rune (runes s)"
proof (induction s rule: runes.induct)
  case (1 s)
  show ?case
  proof (cases s)
    case Nil
    then show ?thesis by (subst runes.simps) simp
  next
    case (Cons a t)
    obtain r w where rw: "DecodeRune s = (r, w)" by (cases "DecodeRune s")
    have u: "runes s = (r, take w s) # runes (drop w s)"
      using Cons rw by (subst runes.simps) (simp add: Let_def)
    then have v: "\<not> (r = RuneError \<and> length (take w s) = 1)" "ValidString (drop w s)"
      using "1.prems" by (simp_all add: ValidString_def)
    have "1 \<le> w" "w \<le> length s" using DecodeRune_width [of s] Cons rw by auto
    then have "\<not> (r = RuneError \<and> w = 1)" using v(1) by auto
    then have "good_rune (r, take w s)"
      using DecodeRune_bytes [of a t r w] rw Cons by (simp add: good_rune_def)
    moreover have "list_all good_rune (runes (drop w s))"
      using "1.IH" [OF _ rw [symmetric] refl] Cons v(2) by simp
    ultimately show ?thesis by (simp add: u)
  qed
qed

end
