(* ===== verification/Go_Json.thy ===== *)
theory Go_Json
  imports Go_Utf8
begin

section \<open>Go's encoding/json: the text layer\<close>

text \<open>
  A JSON value keeps the literal text of its numbers and of its strings and keys (what stands
  between the quotes, escapes included), as \<open>json.RawMessage\<close> does.  The parser is a lexer
  and an automaton with a stack, as the scanner of the package is; it accepts a text exactly
  when \<open>json.Valid\<close> does, with the package's nesting limit.
\<close>

datatype json =
    JNull
  | JBool bool
  | JNum string
  | JStr string
  | JArr "json list"
  | JObj "(string \<times> json) list"

subsection \<open>The lexer\<close>

datatype jtok = TLBrace | TRBrace | TLBrack | TRBrack | TColon | TComma
  | TNull | TBool bool | TNum string | TStr string

definition is_hex :: "char \<Rightarrow> bool" where
  "is_hex c \<longleftrightarrow> c \<in> set ''0123456789abcdefABCDEF''"

definition is_digit :: "char \<Rightarrow> bool" where
  "is_digit c \<longleftrightarrow> c \<in> set ''0123456789''"

definition is_escape :: "char \<Rightarrow> bool" where
  "is_escape c \<longleftrightarrow> c = CHR 0x22 \<or> c = CHR 0x5C \<or> c \<in> set ''/bfnrt''"

definition is_control :: "char \<Rightarrow> bool" where
  "is_control c \<longleftrightarrow> (of_char c :: int) < 32"

text \<open>The body of a string after its opening quote, and what follows the closing one.\<close>

fun lex_str :: "string \<Rightarrow> (string \<times> string) option" where
  "lex_str [] = None"
| "lex_str (c # cs) =
     (if c = CHR 0x22 then Some ([], cs)
      else if c = CHR 0x5C then
        (case cs of
           [] \<Rightarrow> None
         | e # cs1 \<Rightarrow>
             if is_escape e then map_option (\<lambda>(b, r). (c # e # b, r)) (lex_str cs1)
             else if e = CHR ''u'' then
               (case cs1 of
                  h1 # h2 # h3 # h4 # cs2 \<Rightarrow>
                    if list_all is_hex [h1, h2, h3, h4]
                    then map_option (\<lambda>(b, r). (c # e # h1 # h2 # h3 # h4 # b, r)) (lex_str cs2)
                    else None
                | _ \<Rightarrow> None)
             else None)
      else if is_control c then None
      else map_option (\<lambda>(b, r). (c # b, r)) (lex_str cs))"

text \<open>
  A number: an optional minus, an integer without leading zeros, an optional fraction, an
  optional exponent.
\<close>

definition lex_int :: "string \<Rightarrow> (string \<times> string) option" where
  "lex_int s =
     (case s of
        [] \<Rightarrow> None
      | c # cs \<Rightarrow>
          if c = CHR ''0'' then Some ([c], cs)
          else if is_digit c then Some (c # takeWhile is_digit cs, dropWhile is_digit cs)
          else None)"

definition lex_digits :: "string \<Rightarrow> string \<Rightarrow> (string \<times> string) option" where
  "lex_digits pre s =
     (if takeWhile is_digit s = [] then None
      else Some (pre @ takeWhile is_digit s, dropWhile is_digit s))"

definition lex_frac :: "string \<Rightarrow> (string \<times> string) option" where
  "lex_frac s =
     (case s of
        [] \<Rightarrow> Some ([], s)
      | c # cs \<Rightarrow> if c = CHR ''.'' then lex_digits [c] cs else Some ([], s))"

definition lex_exp :: "string \<Rightarrow> (string \<times> string) option" where
  "lex_exp s =
     (case s of
        [] \<Rightarrow> Some ([], s)
      | c # cs \<Rightarrow>
          if c = CHR ''e'' \<or> c = CHR ''E'' then
            (case cs of
               [] \<Rightarrow> None
             | d # ds \<Rightarrow> if d = CHR ''+'' \<or> d = CHR ''-'' then lex_digits [c, d] ds
                          else lex_digits [c] cs)
          else Some ([], s))"

definition lex_unsigned :: "string \<Rightarrow> (string \<times> string) option" where
  "lex_unsigned s =
     (case lex_int s of None \<Rightarrow> None
      | Some (i, s1) \<Rightarrow>
          (case lex_frac s1 of None \<Rightarrow> None
           | Some (f, s2) \<Rightarrow>
               (case lex_exp s2 of None \<Rightarrow> None
                | Some (e, s3) \<Rightarrow> Some (i @ f @ e, s3))))"

definition lex_num :: "string \<Rightarrow> (string \<times> string) option" where
  "lex_num s =
     (case s of
        [] \<Rightarrow> None
      | c # cs \<Rightarrow>
          if c = CHR ''-'' then map_option (\<lambda>(n, r). (c # n, r)) (lex_unsigned cs)
          else lex_unsigned s)"

definition lex_word :: "string \<Rightarrow> jtok \<Rightarrow> string \<Rightarrow> (jtok \<times> string) option" where
  "lex_word w t s = (if take (length w) s = w then Some (t, drop (length w) s) else None)"

definition is_ws :: "char \<Rightarrow> bool" where
  "is_ws c \<longleftrightarrow> c = CHR 0x20 \<or> c = CHR 0x09 \<or> c = CHR 0x0D \<or> c = CHR 0x0A"

text \<open>One token; white space is skipped by the caller.\<close>

fun lex1 :: "string \<Rightarrow> (jtok \<times> string) option" where
  "lex1 [] = None"
| "lex1 (c # cs) =
     (if c = CHR ''{'' then Some (TLBrace, cs)
      else if c = CHR ''}'' then Some (TRBrace, cs)
      else if c = CHR ''['' then Some (TLBrack, cs)
      else if c = CHR '']'' then Some (TRBrack, cs)
      else if c = CHR '':'' then Some (TColon, cs)
      else if c = CHR '','' then Some (TComma, cs)
      else if c = CHR 0x22 then map_option (\<lambda>(b, r). (TStr b, r)) (lex_str cs)
      else if c = CHR ''t'' then lex_word ''true'' (TBool True) (c # cs)
      else if c = CHR ''f'' then lex_word ''false'' (TBool False) (c # cs)
      else if c = CHR ''n'' then lex_word ''null'' TNull (c # cs)
      else map_option (\<lambda>(n, r). (TNum n, r)) (lex_num (c # cs)))"

lemma lex_str_shorter: "lex_str s = Some (b, r) \<Longrightarrow> length r < length s"
proof (induction s arbitrary: b r rule: lex_str.induct)
  case (2 c cs)
  then show ?case by (fastforce split: if_splits list.splits)
qed simp

lemma lex_digits_shorter: "lex_digits p s = Some (b, r) \<Longrightarrow> length r \<le> length s"
  by (auto simp: lex_digits_def length_dropWhile_le split: if_splits)

lemma lex_unsigned_shorter: "lex_unsigned s = Some (b, r) \<Longrightarrow> length r < length s"
proof -
  assume "lex_unsigned s = Some (b, r)"
  then obtain i f e s1 s2 where l: "lex_int s = Some (i, s1)" "lex_frac s1 = Some (f, s2)"
    "lex_exp s2 = Some (e, r)" by (auto simp: lex_unsigned_def split: option.splits)
  have "length s1 < length s"
    using l(1) by (auto simp: lex_int_def less_Suc_eq_le length_dropWhile_le
      split: list.splits if_splits)
  moreover have "length s2 \<le> length s1"
    using l(2) by (auto simp: lex_frac_def split: list.splits if_splits dest: lex_digits_shorter)
  moreover have "length r \<le> length s2"
    using l(3) by (auto simp: lex_exp_def split: list.splits if_splits dest: lex_digits_shorter)
  ultimately show ?thesis by simp
qed

lemma lex1_shorter: "lex1 s = Some (t, r) \<Longrightarrow> length r < length s"
  by (cases s) (auto simp: lex_word_def lex_num_def split: if_splits
    dest: lex_str_shorter lex_unsigned_shorter)

function lex :: "string \<Rightarrow> jtok list option" where
  "lex s =
     (let s1 = dropWhile is_ws s in
      if s1 = [] then Some []
      else case lex1 s1 of
             None \<Rightarrow> None
           | Some (t, r) \<Rightarrow> map_option (\<lambda>ts. t # ts) (lex r))"
  by pat_completeness auto
termination
proof (relation "measure length")
  fix s s1 x t r
  assume "s1 = dropWhile is_ws s" "lex1 s1 = Some x" "(t, r) = x"
  then have "length r < length (dropWhile is_ws s)" using lex1_shorter [of s1 t r] by simp
  then show "(r, s) \<in> measure length" using length_dropWhile_le [of is_ws s] by simp
qed simp

declare lex.simps [simp del]

subsection \<open>The parser\<close>

text \<open>
  A frame of the stack is an open array with the values read so far, or an open object with
  its members so far and the key whose value is being read, both last first.  \<open>AwaitValue\<close>
  is told whether a closing bracket may stand there instead.
\<close>

datatype frame = FArr "json list" | FObj "(string \<times> json) list" string

datatype mode = AwaitValue bool | AwaitKey "(string \<times> json) list" bool
  | AwaitColon "(string \<times> json) list" string | AfterValue json

definition max_depth :: nat where
  "max_depth = 10000"

fun jstep :: "mode \<Rightarrow> frame list \<Rightarrow> jtok \<Rightarrow> (mode \<times> frame list) option" where
  "jstep (AwaitValue close) st t =
     (case t of
        TNull \<Rightarrow> Some (AfterValue JNull, st)
      | TBool b \<Rightarrow> Some (AfterValue (JBool b), st)
      | TNum n \<Rightarrow> Some (AfterValue (JNum n), st)
      | TStr s \<Rightarrow> Some (AfterValue (JStr s), st)
      | TLBrack \<Rightarrow> if length st < max_depth then Some (AwaitValue True, FArr [] # st) else None
      | TLBrace \<Rightarrow> if length st < max_depth then Some (AwaitKey [] True, st) else None
      | TRBrack \<Rightarrow>
          (case st of
             FArr vs # st1 \<Rightarrow> if close then Some (AfterValue (JArr (rev vs)), st1) else None
           | _ \<Rightarrow> None)
      | _ \<Rightarrow> None)"
| "jstep (AwaitKey kvs close) st t =
     (case t of
        TStr k \<Rightarrow> Some (AwaitColon kvs k, st)
      | TRBrace \<Rightarrow> if close then Some (AfterValue (JObj (rev kvs)), st) else None
      | _ \<Rightarrow> None)"
| "jstep (AwaitColon kvs k) st t =
     (if t = TColon then Some (AwaitValue False, FObj kvs k # st) else None)"
| "jstep (AfterValue v) st t =
     (case st of
        [] \<Rightarrow> None
      | FArr vs # st1 \<Rightarrow>
          (case t of
             TComma \<Rightarrow> Some (AwaitValue False, FArr (v # vs) # st1)
           | TRBrack \<Rightarrow> Some (AfterValue (JArr (rev (v # vs))), st1)
           | _ \<Rightarrow> None)
      | FObj kvs k # st1 \<Rightarrow>
          (case t of
             TComma \<Rightarrow> Some (AwaitKey ((k, v) # kvs) False, st1)
           | TRBrace \<Rightarrow> Some (AfterValue (JObj (rev ((k, v) # kvs))), st1)
           | _ \<Rightarrow> None))"

fun jrun :: "mode \<Rightarrow> frame list \<Rightarrow> jtok list \<Rightarrow> json option" where
  "jrun m st [] = (case (m, st) of (AfterValue v, []) \<Rightarrow> Some v | _ \<Rightarrow> None)"
| "jrun m st (t # ts) =
     (case jstep m st t of None \<Rightarrow> None | Some (m1, st1) \<Rightarrow> jrun m1 st1 ts)"

definition json_parse :: "string \<Rightarrow> json option" where
  "json_parse s = (case lex s of None \<Rightarrow> None | Some ts \<Rightarrow> jrun (AwaitValue False) [] ts)"

subsection \<open>The printer\<close>

fun tok_text :: "jtok \<Rightarrow> string" where
  "tok_text TLBrace = ''{''"
| "tok_text TRBrace = ''}''"
| "tok_text TLBrack = ''[''"
| "tok_text TRBrack = '']''"
| "tok_text TColon = '':''"
| "tok_text TComma = '',''"
| "tok_text TNull = ''null''"
| "tok_text (TBool b) = (if b then ''true'' else ''false'')"
| "tok_text (TNum n) = n"
| "tok_text (TStr s) = CHR 0x22 # s @ [CHR 0x22]"

fun comma_sep :: "jtok list list \<Rightarrow> jtok list" where
  "comma_sep [] = []"
| "comma_sep [x] = x"
| "comma_sep (x # y # zs) = x @ TComma # comma_sep (y # zs)"

fun json_toks :: "json \<Rightarrow> jtok list" where
  "json_toks JNull = [TNull]"
| "json_toks (JBool b) = [TBool b]"
| "json_toks (JNum n) = [TNum n]"
| "json_toks (JStr s) = [TStr s]"
| "json_toks (JArr vs) = TLBrack # comma_sep (map json_toks vs) @ [TRBrack]"
| "json_toks (JObj kvs) =
     TLBrace # comma_sep (map (\<lambda>(k, v). TStr k # TColon # json_toks v) kvs) @ [TRBrace]"

definition json_print :: "json \<Rightarrow> string" where
  "json_print j = concat (map tok_text (json_toks j))"

subsection \<open>Parsing what was printed\<close>

definition wf_str_lit :: "string \<Rightarrow> bool" where
  "wf_str_lit s \<longleftrightarrow> lex_str (s @ [CHR 0x22]) = Some (s, [])"

definition wf_num_lit :: "string \<Rightarrow> bool" where
  "wf_num_lit n \<longleftrightarrow> lex_num n = Some (n, [])"

fun json_wf :: "json \<Rightarrow> bool" where
  "json_wf (JNum n) \<longleftrightarrow> wf_num_lit n"
| "json_wf (JStr s) \<longleftrightarrow> wf_str_lit s"
| "json_wf (JArr vs) \<longleftrightarrow> list_all json_wf vs"
| "json_wf (JObj kvs) \<longleftrightarrow> list_all (\<lambda>(k, v). wf_str_lit k \<and> json_wf v) kvs"
| "json_wf _ \<longleftrightarrow> True"

fun json_depth :: "json \<Rightarrow> nat" where
  "json_depth (JArr vs) = Suc (Max (insert 0 (set (map json_depth vs))))"
| "json_depth (JObj kvs) = Suc (Max (insert 0 (set (map (\<lambda>(k, v). json_depth v) kvs))))"
| "json_depth _ = 0"

text \<open>The automaton reads back the tokens of a value.\<close>

lemma jrun_array:
  assumes "\<And>v c ts st'. v \<in> set vs \<Longrightarrow> length st' = Suc (length st) \<Longrightarrow>
      jrun (AwaitValue c) st' (json_toks v @ ts) = jrun (AfterValue v) st' ts"
    and "vs \<noteq> []"
  shows "jrun (AwaitValue c) (FArr acc # st) (comma_sep (map json_toks vs) @ TRBrack # ts)
    = jrun (AfterValue (JArr (rev acc @ vs))) st ts"
  using assms
proof (induction vs arbitrary: acc c)
  case (Cons v vs)
  show ?case
  proof (cases vs)
    case Nil
    then show ?thesis using Cons.prems(1) [of v] by simp
  next
    case c: (Cons w ws)
    have "jrun (AwaitValue False) (FArr (v # acc) # st) (comma_sep (map json_toks vs) @ TRBrack # ts)
        = jrun (AfterValue (JArr (rev (v # acc) @ vs))) st ts"
      by (rule Cons.IH) (use Cons.prems(1) c in auto)
    then show ?thesis using Cons.prems(1) [of v] c by simp
  qed
qed simp

lemma jrun_object:
  assumes "\<And>k v c ts st'. (k, v) \<in> set kvs \<Longrightarrow> length st' = Suc (length st) \<Longrightarrow>
      jrun (AwaitValue c) st' (json_toks v @ ts) = jrun (AfterValue v) st' ts"
    and "kvs \<noteq> []"
  shows "jrun (AwaitKey acc c) st
      (comma_sep (map (\<lambda>(k, v). TStr k # TColon # json_toks v) kvs) @ TRBrace # ts)
    = jrun (AfterValue (JObj (rev acc @ kvs))) st ts"
  using assms
proof (induction kvs arbitrary: acc c)
  case (Cons kv kvs)
  obtain k v where kv: "kv = (k, v)" by (cases kv)
  show ?case
  proof (cases kvs)
    case Nil
    then show ?thesis using Cons.prems(1) [of k v] by (simp add: kv)
  next
    case c: (Cons w ws)
    have "jrun (AwaitKey ((k, v) # acc) False) st
          (comma_sep (map (\<lambda>(k, v). TStr k # TColon # json_toks v) kvs) @ TRBrace # ts)
        = jrun (AfterValue (JObj (rev ((k, v) # acc) @ kvs))) st ts"
    proof (rule Cons.IH)
      fix k' v' c ts' and st' :: "frame list"
      assume "(k', v') \<in> set kvs" "length st' = Suc (length st)"
      then show "jrun (AwaitValue c) st' (json_toks v' @ ts') = jrun (AfterValue v') st' ts'"
        by (intro Cons.prems(1) [of k' v']) simp_all
    qed (simp add: c)
    then show ?thesis using Cons.prems(1) [of k v] c by (simp add: kv)
  qed
qed simp

lemma Max_le_mem: "x \<in> set xs \<Longrightarrow> f x \<le> Max (insert (0::nat) (f ` set xs))"
  by (intro Max_ge) auto

lemma jrun_toks:
  "json_depth j + length st \<le> max_depth \<Longrightarrow>
     jrun (AwaitValue c) st (json_toks j @ ts) = jrun (AfterValue j) st ts"
proof (induction j arbitrary: st c ts rule: json_toks.induct)
  case (5 vs)
  have d: "length st < max_depth" using "5.prems" by simp
  have "jrun (AwaitValue c') st' (json_toks v @ ts') = jrun (AfterValue v) st' ts'"
    if "v \<in> set vs" "length st' = Suc (length st)" for v c' ts' st'
  proof (intro "5.IH")
    show "json_depth v + length st' \<le> max_depth"
      using that "5.prems" Max_le_mem [OF that(1), of json_depth]
      by (simp only: json_depth.simps list.set_map)
  qed (rule that(1))
  then show ?case using d jrun_array [of vs st True "[]" ts] by (cases "vs = []") simp_all
next
  case (6 kvs)
  have d: "length st < max_depth" using "6.prems" by simp
  have "jrun (AwaitValue c') st' (json_toks v @ ts') = jrun (AfterValue v) st' ts'"
    if "(k, v) \<in> set kvs" "length st' = Suc (length st)" for k v c' ts' st'
    using that "6.prems" Max_le_mem [OF that(1), of "\<lambda>(k, v). json_depth v"]
    by (intro "6.IH") simp_all
  then show ?case using d jrun_object [of kvs st "[]" True ts] by (cases "kvs = []") simp_all
qed simp_all

lemma lex_str_append: "lex_str s = Some (b, r) \<Longrightarrow> lex_str (s @ t) = Some (b, r @ t)"
proof (induction s arbitrary: b r rule: lex_str.induct)
  case (2 c cs)
  show ?case
  proof (cases "c = CHR 0x5C")
    case esc: True
    then show ?thesis
    proof (cases cs)
      case (Cons e cs1)
      show ?thesis
      proof (cases "is_escape e")
        case True
        then show ?thesis using 2 esc Cons by (auto split: if_splits)
      next
        case False
        then obtain h1 h2 h3 h4 cs2 where h: "e = CHR ''u''" "cs1 = h1 # h2 # h3 # h4 # cs2"
          "list_all is_hex [h1, h2, h3, h4]"
          using "2.prems" esc Cons by (auto split: if_splits list.splits)
        then show ?thesis using "2.IH"(2) "2.prems" esc Cons False by auto
      qed
    qed (use 2 in auto)
  next
    case False
    then show ?thesis using 2 by (auto split: if_splits)
  qed
qed simp

lemma lex_str_wf: "wf_str_lit s \<Longrightarrow> lex_str (s @ CHR 0x22 # t) = Some (s, t)"
  using lex_str_append [of "s @ [CHR 0x22]" s "[]" t] by (simp add: wf_str_lit_def)

text \<open>What may follow a number without changing it.\<close>

definition num_stop :: "string \<Rightarrow> bool" where
  "num_stop t \<longleftrightarrow> t = [] \<or> (\<not> is_digit (hd t) \<and> hd t \<notin> set ''.eE'')"

lemma digits_append:
  "num_stop t \<Longrightarrow> takeWhile is_digit (s @ t) = takeWhile is_digit s"
  "num_stop t \<Longrightarrow> dropWhile is_digit (s @ t) = dropWhile is_digit s @ t"
  by (induction s) (cases t; simp add: num_stop_def)+

lemma lex_digits_append:
  "num_stop t \<Longrightarrow> lex_digits p s = Some (b, r) \<Longrightarrow> lex_digits p (s @ t) = Some (b, r @ t)"
  by (auto simp: lex_digits_def digits_append split: if_splits)

lemma lex_digits_append_Cons:
  "num_stop t \<Longrightarrow> lex_digits p (x # s) = Some (b, r) \<Longrightarrow> lex_digits p (x # s @ t) = Some (b, r @ t)"
  using lex_digits_append [of t p "x # s"] by simp

lemma lex_int_append:
  "num_stop t \<Longrightarrow> lex_int s = Some (b, r) \<Longrightarrow> lex_int (s @ t) = Some (b, r @ t)"
  by (auto simp: lex_int_def digits_append split: if_splits list.splits)

lemma lex_frac_append:
  "num_stop t \<Longrightarrow> lex_frac s = Some (b, r) \<Longrightarrow> lex_frac (s @ t) = Some (b, r @ t)"
  by (cases s; cases t)
    (auto simp: lex_frac_def lex_digits_append num_stop_def split: if_splits)

lemma lex_exp_append:
  "num_stop t \<Longrightarrow> lex_exp s = Some (b, r) \<Longrightarrow> lex_exp (s @ t) = Some (b, r @ t)"
proof (cases s)
  case Nil
  then show "num_stop t \<Longrightarrow> lex_exp s = Some (b, r) \<Longrightarrow> lex_exp (s @ t) = Some (b, r @ t)"
    by (cases t) (auto simp: lex_exp_def num_stop_def)
next
  case (Cons c cs)
  then show "num_stop t \<Longrightarrow> lex_exp s = Some (b, r) \<Longrightarrow> lex_exp (s @ t) = Some (b, r @ t)"
    by (auto simp: lex_exp_def lex_digits_append lex_digits_append_Cons split: if_splits list.splits)
qed

lemma lex_unsigned_append:
  assumes "num_stop t" and "lex_unsigned s = Some (b, r)"
  shows "lex_unsigned (s @ t) = Some (b, r @ t)"
proof -
  obtain i f e s1 s2 where "lex_int s = Some (i, s1)" "lex_frac s1 = Some (f, s2)"
    "lex_exp s2 = Some (e, r)" "b = i @ f @ e"
    using assms(2) by (auto simp: lex_unsigned_def split: option.splits)
  then show ?thesis using assms(1)
    by (simp add: lex_unsigned_def lex_int_append lex_frac_append lex_exp_append)
qed

lemma lex_num_append:
  assumes "num_stop t" and "lex_num s = Some (b, r)"
  shows "lex_num (s @ t) = Some (b, r @ t)"
  using assms by (cases s) (auto simp: lex_num_def lex_unsigned_append [OF assms(1)]
    lex_unsigned_append [OF assms(1), of "_ # _", simplified] split: if_splits)

lemma lex_num_first: "lex_num (c # cs) \<noteq> None \<Longrightarrow> c = CHR ''-'' \<or> is_digit c"
  by (auto simp: lex_num_def lex_unsigned_def lex_int_def is_digit_def split: if_splits option.splits)

lemma lex_num_wf: "wf_num_lit n \<Longrightarrow> num_stop t \<Longrightarrow> lex_num (n @ t) = Some (n, t)"
  using lex_num_append [of t n n "[]"] by (simp add: wf_num_lit_def)

subsection \<open>Lexing what was printed\<close>

definition tok_wf :: "jtok \<Rightarrow> bool" where
  "tok_wf t \<longleftrightarrow> (case t of TNum n \<Rightarrow> wf_num_lit n | TStr s \<Rightarrow> wf_str_lit s | _ \<Rightarrow> True)"

definition closes :: "jtok list \<Rightarrow> bool" where
  "closes ts \<longleftrightarrow> ts = [] \<or> hd ts \<in> {TComma, TRBrack, TRBrace}"

fun toks_ok :: "jtok list \<Rightarrow> bool" where
  "toks_ok [] \<longleftrightarrow> True"
| "toks_ok (t # ts) \<longleftrightarrow> tok_wf t \<and> (case t of TNum n \<Rightarrow> closes ts | _ \<Rightarrow> True) \<and> toks_ok ts"

lemma closes_stop: "closes ts \<Longrightarrow> num_stop (concat (map tok_text ts))"
  by (cases ts) (auto simp: closes_def num_stop_def is_digit_def)

lemma lex1_tok:
  assumes "tok_wf t" and "case t of TNum n \<Rightarrow> num_stop s | _ \<Rightarrow> True"
  shows "lex1 (tok_text t @ s) = Some (t, s)"
proof (cases t)
  case (TNum n)
  then have l: "lex_num (n @ s) = Some (n, s)" using assms by (simp add: tok_wf_def lex_num_wf)
  obtain c cs where n: "n = c # cs"
    using assms(1) TNum by (cases n) (auto simp: tok_wf_def wf_num_lit_def lex_num_def)
  have "c = CHR ''-'' \<or> is_digit c" using l n by (intro lex_num_first [of c "cs @ s"]) simp
  then show ?thesis using l TNum n by (auto simp: is_digit_def)
next
  case (TStr b)
  then show ?thesis using assms(1) lex_str_wf by (simp add: tok_wf_def)
qed (auto simp: lex_word_def)

lemma tok_text_no_ws: "tok_wf t \<Longrightarrow> tok_text t \<noteq> [] \<and> \<not> is_ws (hd (tok_text t))"
proof (cases t)
  case (TNum n)
  assume "tok_wf t"
  then obtain c cs where n: "n = c # cs"
    using TNum by (cases n) (auto simp: tok_wf_def wf_num_lit_def lex_num_def)
  then have "c = CHR ''-'' \<or> is_digit c"
    using \<open>tok_wf t\<close> TNum by (intro lex_num_first [of c cs]) (simp add: tok_wf_def wf_num_lit_def)
  then show ?thesis using TNum n by (auto simp: is_digit_def is_ws_def)
qed (auto simp: is_ws_def)

lemma lex_toks: "toks_ok ts \<Longrightarrow> lex (concat (map tok_text ts)) = Some ts"
proof (induction ts)
  case Nil
  show ?case by (subst lex.simps) simp
next
  case (Cons t ts)
  let ?s = "concat (map tok_text ts)"
  have ws: "dropWhile is_ws (tok_text t @ ?s) = tok_text t @ ?s"
    using Cons.prems tok_text_no_ws [of t] by (cases "tok_text t") auto
  have "lex1 (tok_text t @ ?s) = Some (t, ?s)"
    using Cons.prems closes_stop [of ts] by (intro lex1_tok) (auto split: jtok.splits)
  then show ?case
    using Cons ws tok_text_no_ws [of t] by (subst lex.simps) (simp add: Let_def)
qed

lemma toks_ok_array:
  assumes "\<And>v ts. v \<in> set vs \<Longrightarrow> toks_ok ts \<Longrightarrow> closes ts \<Longrightarrow> toks_ok (f v @ ts)"
    and "toks_ok ts" and "closes ts"
  shows "toks_ok (comma_sep (map f vs) @ ts)"
  using assms
proof (induction vs)
  case (Cons v vs)
  show ?case
  proof (cases vs)
    case c: (Cons w ws)
    have "toks_ok (comma_sep (map f vs) @ ts)" using Cons by simp
    then show ?thesis using Cons.prems(1) [of v] c by (simp add: tok_wf_def closes_def)
  qed (use Cons.prems in simp)
qed simp

lemma toks_ok_json: "json_wf j \<Longrightarrow> toks_ok ts \<Longrightarrow> closes ts \<Longrightarrow> toks_ok (json_toks j @ ts)"
proof (induction j arbitrary: ts rule: json_toks.induct)
  case (5 vs)
  have "toks_ok (comma_sep (map json_toks vs) @ TRBrack # ts)"
    using 5 by (intro toks_ok_array) (auto simp: tok_wf_def closes_def list_all_iff)
  then show ?case by (simp add: tok_wf_def)
next
  case (6 kvs)
  have "toks_ok (comma_sep (map (\<lambda>(k, v). TStr k # TColon # json_toks v) kvs) @ TRBrace # ts)"
  proof (rule toks_ok_array)
    fix kv ts' assume kv: "kv \<in> set kvs" "toks_ok ts'" "closes ts'"
    obtain k v where [simp]: "kv = (k, v)" by (cases kv)
    have "wf_str_lit k" "json_wf v" using "6.prems"(1) kv by (auto simp: list_all_iff)
    then show "toks_ok ((case kv of (k, v) \<Rightarrow> TStr k # TColon # json_toks v) @ ts')"
      using "6.IH" [of "(k, v)" k v ts'] kv by (simp add: tok_wf_def)
  qed (use "6.prems" in \<open>simp_all add: tok_wf_def closes_def\<close>)
  then show ?case by (simp add: tok_wf_def)
qed (simp_all add: tok_wf_def)

lemma json_parse_print:
  assumes "json_wf j" and "json_depth j \<le> max_depth"
  shows "json_parse (json_print j) = Some j"
proof -
  have "lex (json_print j) = Some (json_toks j)"
    unfolding json_print_def using toks_ok_json [OF assms(1), of "[]"] by (intro lex_toks)
      (simp add: closes_def)
  then show ?thesis
    using jrun_toks [of j "[]" False "[]"] assms(2) by (simp add: json_parse_def)
qed

interpretation json_text: codec json_print json_parse "\<lambda>j. json_wf j \<and> json_depth j \<le> max_depth"
  by unfold_locales (simp add: json_parse_print)

subsection \<open>String literals\<close>

text \<open>
  \<open>json_quote\<close> is what \<open>json.Marshal\<close> writes between the quotes (it escapes for HTML);
  \<open>json_unquote\<close> reads a literal, with the replacement rune for what is not UTF-8 and for
  surrogates that do not pair.
\<close>

definition quote_json_rune :: "int \<times> string \<Rightarrow> string" where
  "quote_json_rune rb =
     (let (r, bs) = rb in
      if r = RuneError \<and> length bs = 1 then CHR 0x5C # ''ufffd''
      else if r = 34 \<or> r = 92 then CHR 0x5C # bs
      else if r = 8 then [CHR 0x5C, CHR ''b'']
      else if r = 12 then [CHR 0x5C, CHR ''f'']
      else if r = 10 then [CHR 0x5C, CHR ''n'']
      else if r = 13 then [CHR 0x5C, CHR ''r'']
      else if r = 9 then [CHR 0x5C, CHR ''t'']
      else if r < 32 \<or> r = 60 \<or> r = 62 \<or> r = 38 \<or> r = 8232 \<or> r = 8233
        then CHR 0x5C # CHR ''u'' # hex_pad 4 r
      else bs)"

definition json_quote :: "string \<Rightarrow> string" where
  "json_quote s = concat (map quote_json_rune (runes s))"

definition hex_any :: "char \<Rightarrow> int" where
  "hex_any c =
     (let k = of_char c in
      if 48 \<le> k \<and> k \<le> 57 then k - 48 else if 97 \<le> k then k - 87 else k - 55)"

definition hex4 :: "char \<Rightarrow> char \<Rightarrow> char \<Rightarrow> char \<Rightarrow> int" where
  "hex4 a b c d = hex_any a * 4096 + hex_any b * 256 + hex_any c * 16 + hex_any d"

definition unescape :: "char \<Rightarrow> char" where
  "unescape e =
     (if e = CHR ''b'' then CHR 0x08 else if e = CHR ''f'' then CHR 0x0C
      else if e = CHR ''n'' then CHR 0x0A else if e = CHR ''r'' then CHR 0x0D
      else if e = CHR ''t'' then CHR 0x09 else e)"

text \<open>The low half of a surrogate pair, if a literal goes on with one.\<close>

definition low_surrogate :: "string \<Rightarrow> (int \<times> string) option" where
  "low_surrogate s =
     (case s of
        x # u # a # b # c # d # cs \<Rightarrow>
          if x = CHR 0x5C \<and> u = CHR ''u'' \<and> 56320 \<le> hex4 a b c d \<and> hex4 a b c d \<le> 57343
          then Some (hex4 a b c d, cs) else None
      | _ \<Rightarrow> None)"

lemma low_surrogate_shorter: "low_surrogate s = Some (l, r) \<Longrightarrow> length r < length s"
  by (auto simp: low_surrogate_def split: list.splits if_splits)

function json_unquote :: "string \<Rightarrow> string" where
  "json_unquote [] = []"
| "json_unquote (c # cs) =
     (if c = CHR 0x5C then
        (case cs of
           [] \<Rightarrow> []
         | e # cs1 \<Rightarrow>
             if e = CHR ''u'' then
               (case cs1 of
                  h1 # h2 # h3 # h4 # cs2 \<Rightarrow>
                    let r = hex4 h1 h2 h3 h4 in
                    if 55296 \<le> r \<and> r \<le> 57343 then
                      (case low_surrogate cs2 of
                         Some (l, cs3) \<Rightarrow>
                           if r \<le> 56319
                           then EncodeRune (65536 + (r - 55296) * 1024 + (l - 56320)) @ json_unquote cs3
                           else EncodeRune RuneError @ json_unquote cs2
                       | None \<Rightarrow> EncodeRune RuneError @ json_unquote cs2)
                    else EncodeRune r @ json_unquote cs2
                | _ \<Rightarrow> [])
             else unescape e # json_unquote cs1)
      else let (r, w) = DecodeRune (c # cs)
           in EncodeRune r @ json_unquote (drop (w - 1) cs))"
  by pat_completeness auto
termination
  by (relation "measure length") (auto dest: low_surrogate_shorter)

lemma json_unquote_rune:
  assumes "ValidRune r" and "r \<noteq> 92"
  shows "json_unquote (EncodeRune r @ t) = EncodeRune r @ json_unquote t"
proof -
  obtain c cs where e: "EncodeRune r = c # cs" using EncodeRune_nonempty [of r] by (cases "EncodeRune r") auto
  have d: "DecodeRune (c # cs @ t) = (r, Suc (length cs))"
    using DecodeRune_Encode [OF assms(1), of t] by (simp add: e)
  have "c \<noteq> CHR 0x5C"
  proof
    assume "c = CHR 0x5C"
    then have "DecodeRune (c # cs @ t) = (92, 1)" by simp
    then show False using d assms(2) by simp
  qed
  then show ?thesis using d by (simp add: e del: DecodeRune.simps)
qed

lemma hex_any_digit: "0 \<le> d \<Longrightarrow> d < 16 \<Longrightarrow> hex_any (hex_digit d) = d"
  by (drule (1) hex_digit_cases, elim disjE; simp only:; code_simp)

lemma is_hex_digit: "0 \<le> d \<Longrightarrow> d < 16 \<Longrightarrow> is_hex (hex_digit d)"
  by (drule (1) hex_digit_cases, elim disjE; simp only:; code_simp)

lemma hex_pad_4:
  "hex_pad 4 r = [hex_digit (r div 4096 mod 16), hex_digit (r div 256 mod 16),
                  hex_digit (r div 16 mod 16), hex_digit (r mod 16)]"
proof -
  have "r div 256 = r div 16 div 16" "r div 4096 = r div 16 div 16 div 16"
    by (simp_all flip: zdiv_zmult2_eq)
  then show ?thesis by (simp add: numeral_eq_Suc)
qed

lemma nibbles_join:
  "r div 4096 * 4096 + r div 256 mod 16 * 256 + r div 16 mod 16 * 16 + r mod 16 = (r::int)"
proof -
  define x y z where "x = r div 16" and "y = x div 16" and "z = y div 16"
  have d: "r div 256 = y" "r div 4096 = z"
    unfolding x_def y_def z_def by (simp_all flip: zdiv_zmult2_eq)
  have "x * 16 + r mod 16 = r" "y * 16 + x mod 16 = x" "z * 16 + y mod 16 = y"
    unfolding x_def y_def z_def by (rule div_mult_mod_eq)+
  then show ?thesis unfolding d x_def [symmetric] by linarith
qed

lemma nibble_range: "0 \<le> (x::int) mod 16" "x mod 16 < 16"
  by simp_all

lemma hex4_pad:
  assumes "0 \<le> r" "r < 65536"
  shows "hex4 (hex_digit (r div 4096 mod 16)) (hex_digit (r div 256 mod 16))
    (hex_digit (r div 16 mod 16)) (hex_digit (r mod 16)) = r"
proof -
  have "r div 4096 < 16" "0 \<le> r div 4096" using assms by auto
  then have m: "r div 4096 mod 16 = r div 4096" by simp
  show ?thesis
    unfolding hex4_def hex_any_digit [OF nibble_range] unfolding m by (rule nibbles_join)
qed

lemma json_unquote_u4:
  "\<not> (55296 \<le> hex4 a b c d \<and> hex4 a b c d \<le> 57343) \<Longrightarrow>
     json_unquote (CHR 0x5C # CHR ''u'' # a # b # c # d # t) = EncodeRune (hex4 a b c d) @ json_unquote t"
  by (subst json_unquote.simps(2)) (auto simp: Let_def simp del: json_unquote.simps)

lemma json_unquote_u:
  assumes "0 \<le> r" "r < 55296"
  shows "json_unquote (CHR 0x5C # CHR ''u'' # hex_pad 4 r @ t) = EncodeRune r @ json_unquote t"
proof -
  have h: "hex4 (hex_digit (r div 4096 mod 16)) (hex_digit (r div 256 mod 16))
    (hex_digit (r div 16 mod 16)) (hex_digit (r mod 16)) = r"
    using assms by (intro hex4_pad) simp_all
  have "\<not> (55296 \<le> r \<and> r \<le> 57343)" using assms by simp
  then show ?thesis unfolding hex_pad_4 append_Cons append_Nil
    using json_unquote_u4 [of "hex_digit (r div 4096 mod 16)" "hex_digit (r div 256 mod 16)"
      "hex_digit (r div 16 mod 16)" "hex_digit (r mod 16)" t] by (simp only: h simp_thms)
qed

lemma EncodeRune_ascii: "0 \<le> r \<Longrightarrow> r < 128 \<Longrightarrow> EncodeRune r = [char_of r]"
  by (simp add: EncodeRune_def ValidRune_def)

lemma json_unquote_esc:
  "e \<noteq> CHR ''u'' \<Longrightarrow> json_unquote (CHR 0x5C # e # t) = unescape e # json_unquote t"
  by simp

lemma json_unquote_quote_rune:
  assumes "good_rune rb"
  shows "json_unquote (quote_json_rune rb @ t) = snd rb @ json_unquote t"
proof -
  obtain r where rb: "rb = (r, EncodeRune r)" and v: "ValidRune r"
    using assms by (cases rb) (simp add: good_rune_def)
  have r0: "0 \<le> r" using v by (auto simp: ValidRune_def)
  have ne: "\<not> (r = RuneError \<and> length (EncodeRune r) = 1)"
    by (auto simp: EncodeRune_def RuneError_def)
  consider "r = 34 \<or> r = 92" | "r = 8 \<or> r = 12 \<or> r = 10 \<or> r = 13 \<or> r = 9"
    | "r \<notin> {34, 92, 8, 12, 10, 13, 9}" "r < 32 \<or> r = 60 \<or> r = 62 \<or> r = 38 \<or> r = 8232 \<or> r = 8233"
    | "r \<notin> {34, 92, 8, 12, 10, 13, 9}" "\<not> (r < 32 \<or> r = 60 \<or> r = 62 \<or> r = 38 \<or> r = 8232 \<or> r = 8233)"
    by blast
  then show ?thesis
  proof cases
    case 1
    moreover have "char_of (34::int) = CHR 0x22" "char_of (92::int) = CHR 0x5C" by code_simp+
    ultimately have e: "EncodeRune r = [char_of r]" "char_of r = CHR 0x22 \<or> char_of r = CHR 0x5C"
      by (auto simp: EncodeRune_ascii)
    then have "char_of r \<noteq> CHR ''u'' \<and> unescape (char_of r) = char_of r" by (auto simp: unescape_def)
    then show ?thesis using 1 ne e(1) json_unquote_esc [of "char_of r" t]
      by (simp add: rb quote_json_rune_def del: json_unquote.simps)
  next
    case 2
    moreover have "char_of (8::int) = CHR 0x08" "char_of (12::int) = CHR 0x0C"
      "char_of (10::int) = CHR 0x0A" "char_of (13::int) = CHR 0x0D" "char_of (9::int) = CHR 0x09"
      by code_simp+
    ultimately show ?thesis using ne
      by (auto simp: rb quote_json_rune_def EncodeRune_ascii json_unquote_esc unescape_def
        simp del: json_unquote.simps)
  next
    case 3
    then have "quote_json_rune rb = CHR 0x5C # CHR ''u'' # hex_pad 4 r"
      using ne by (auto simp: rb quote_json_rune_def)
    moreover have "r < 55296" using 3 by auto
    ultimately show ?thesis using json_unquote_u [OF r0, of t]
      by (simp add: rb del: json_unquote.simps)
  next
    case 4
    then have "quote_json_rune rb = EncodeRune r" using ne by (auto simp: rb quote_json_rune_def)
    then show ?thesis using json_unquote_rune [OF v, of t] 4
      by (simp add: rb del: json_unquote.simps)
  qed
qed

lemma json_unquote_quote:
  assumes "ValidString s"
  shows "json_unquote (json_quote s) = s"
proof -
  have "list_all good_rune rs \<Longrightarrow>
      json_unquote (concat (map quote_json_rune rs)) = concat (map snd rs)" for rs
    by (induction rs) (simp_all add: json_unquote_quote_rune del: json_unquote.simps(2))
  then show ?thesis using ValidString_good [OF assms] by (simp add: json_quote_def runes_concat)
qed

definition rune_ok :: "int \<times> string \<Rightarrow> bool" where
  "rune_ok rb \<longleftrightarrow> good_rune rb \<or> (fst rb = RuneError \<and> length (snd rb) = 1)"

lemma runes_ok: "list_all rune_ok (runes s)"
proof (induction s rule: runes.induct)
  case (1 s)
  show ?case
  proof (cases s)
    case Nil
    then show ?thesis by (subst runes.simps) simp
  next
    case (Cons a t)
    obtain r w where rw: "DecodeRune s = (r, w)" by (cases "DecodeRune s")
    have u: "runes s = (r, take w s) # runes (drop w s)"
      using Cons rw by (subst runes.simps) (simp add: Let_def)
    have w: "1 \<le> w" "w \<le> length s" using DecodeRune_width [of s] Cons rw by auto
    have "rune_ok (r, take w s)"
      using DecodeRune_bytes [of a t r w] rw Cons w by (auto simp: rune_ok_def good_rune_def)
    moreover have "list_all rune_ok (runes (drop w s))"
      using "1.IH" [OF _ rw [symmetric] refl] Cons by simp
    ultimately show ?thesis unfolding u by simp
  qed
qed

text \<open>Bytes that stand for themselves in a literal.\<close>

definition plain :: "char \<Rightarrow> bool" where
  "plain c \<longleftrightarrow> c \<noteq> CHR 0x22 \<and> c \<noteq> CHR 0x5C \<and> \<not> is_control c"

definition lit_prefix :: "string \<Rightarrow> bool" where
  "lit_prefix q \<longleftrightarrow> (\<forall>t. lex_str (q @ t) = map_option (\<lambda>(b, r). (q @ b, r)) (lex_str t))"

lemma lit_prefix_Nil: "lit_prefix []"
  by (simp add: lit_prefix_def option.map_ident option.map_id)

lemma lit_prefix_append: "lit_prefix p \<Longrightarrow> lit_prefix q \<Longrightarrow> lit_prefix (p @ q)"
  by (simp add: lit_prefix_def option.map_comp comp_def case_prod_unfold)

lemma lit_prefix_plain: "list_all plain q \<Longrightarrow> lit_prefix q"
proof (induction q)
  case (Cons c q)
  have "lit_prefix [c]" using Cons.prems by (simp add: lit_prefix_def plain_def)
  then show ?case using lit_prefix_append [of "[c]" q] Cons by simp
qed (simp add: lit_prefix_Nil)

lemma lit_prefix_esc: "is_escape e \<Longrightarrow> lit_prefix [CHR 0x5C, e]"
  by (simp add: lit_prefix_def)

lemma lit_prefix_u: "lit_prefix (CHR 0x5C # CHR ''u'' # hex_pad 4 r)"
proof -
  have "is_hex (hex_digit (x mod 16))" for x by (rule is_hex_digit) simp_all
  then show ?thesis by (simp add: lit_prefix_def hex_pad_4 is_escape_def)
qed

lemma plain_high: "128 \<le> (of_char c :: int) \<Longrightarrow> plain c"
  by (auto simp: plain_def is_control_def)

lemma EncodeRune_high:
  assumes "ValidRune r" "128 \<le> r"
  shows "list_all plain (EncodeRune r)"
proof -
  have p: "plain (char_of k)" if "128 \<le> k" "k < 256" for k :: int
    using that by (intro plain_high) (simp add: of_char_of)
  have r: "0 \<le> r mod 64" "r mod 64 < 64" "r \<le> 1114111" using assms by (auto simp: ValidRune_def)
  show ?thesis
    using assms r sextet_ranges [of r]
    by (auto simp: EncodeRune_def Let_def intro!: p)
qed

lemma plain_ascii: "32 \<le> r \<Longrightarrow> r < 128 \<Longrightarrow> r \<noteq> 34 \<Longrightarrow> r \<noteq> 92 \<Longrightarrow> plain (char_of (r :: int))"
proof -
  assume r: "32 \<le> r" "r < 128" "r \<noteq> 34" "r \<noteq> 92"
  then have c: "(of_char (char_of r :: char) :: int) = r" by (simp add: of_char_of)
  have "char_of r \<noteq> CHR 0x22" "char_of r \<noteq> CHR 0x5C"
    using r(3,4) arg_cong [of "char_of r" _ "of_char :: char \<Rightarrow> int"] c by fastforce+
  then show ?thesis using r c by (simp add: plain_def is_control_def)
qed

lemma lit_prefix_rune:
  assumes "rune_ok rb"
  shows "lit_prefix (quote_json_rune rb)"
proof (cases "fst rb = RuneError \<and> length (snd rb) = 1")
  case True
  have "list_all is_hex ''fffd''" by code_simp
  then have "lit_prefix (CHR 0x5C # ''ufffd'')" by (simp add: lit_prefix_def is_escape_def)
  with True show ?thesis by (cases rb) (simp add: quote_json_rune_def)
next
  case ne: False
  then obtain r where rb: "rb = (r, EncodeRune r)" and v: "ValidRune r"
    using assms by (cases rb) (auto simp: good_rune_def rune_ok_def)
  have r0: "0 \<le> r" using v by (auto simp: ValidRune_def)
  consider "r = 34 \<or> r = 92" | "r \<in> {8, 12, 10, 13, 9}"
    | "r \<notin> {34, 92, 8, 12, 10, 13, 9}" "r < 32 \<or> r = 60 \<or> r = 62 \<or> r = 38 \<or> r = 8232 \<or> r = 8233"
    | "r \<notin> {34, 92}" "32 \<le> r" "r \<notin> {60, 62, 38, 8232, 8233}"
    by fastforce
  then show ?thesis
  proof cases
    case 1
    moreover have "char_of (34::int) = CHR 0x22" "char_of (92::int) = CHR 0x5C" by code_simp+
    ultimately have "quote_json_rune rb = [CHR 0x5C, char_of r]" "is_escape (char_of r)"
      using ne by (auto simp: rb quote_json_rune_def EncodeRune_ascii is_escape_def)
    then show ?thesis by (simp add: lit_prefix_esc)
  next
    case 2
    then have "quote_json_rune rb \<in> (\<lambda>e. [CHR 0x5C, e]) ` set ''bfnrt''"
      using ne by (auto simp: rb quote_json_rune_def)
    then show ?thesis by (auto simp: is_escape_def intro!: lit_prefix_esc)
  next
    case 3
    then have "quote_json_rune rb = CHR 0x5C # CHR ''u'' # hex_pad 4 r"
      using ne by (auto simp: rb quote_json_rune_def)
    then show ?thesis by (simp add: lit_prefix_u)
  next
    case 4
    then have q: "quote_json_rune rb = EncodeRune r" using ne by (auto simp: rb quote_json_rune_def)
    show ?thesis
    proof (cases "r < 128")
      case True
      then show ?thesis using 4 by (simp add: q EncodeRune_ascii plain_ascii lit_prefix_plain)
    next
      case False
      then show ?thesis by (simp add: q v EncodeRune_high lit_prefix_plain)
    qed
  qed
qed

lemma wf_json_quote: "wf_str_lit (json_quote s)"
proof -
  have "list_all rune_ok rs \<Longrightarrow> lit_prefix (concat (map quote_json_rune rs))" for rs
    by (induction rs) (simp_all add: lit_prefix_Nil lit_prefix_append lit_prefix_rune)
  then have "lit_prefix (json_quote s)" by (simp add: json_quote_def runes_ok)
  then show ?thesis by (simp add: wf_str_lit_def lit_prefix_def)
qed

interpretation json_string: codec json_quote "\<lambda>s. Some (json_unquote s)" ValidString
  by unfold_locales (simp add: json_unquote_quote)

end
