(* ===== verification/Go_JsonStruct.thy ===== *)
theory Go_JsonStruct
  imports Go_Json
begin

section \<open>Go's encoding/json: values and structs\<close>

text \<open>
  \<open>json.Unmarshal\<close> into a Go value: a decoder takes the JSON value and the old contents of
  the target, because null leaves most targets as they are and a repeated key decodes into
  what the first one left.  An error of one field ends up as the error of the whole call, so
  the decoders stop at the first.  The texts of the package's errors are not modelled.
  (After a repeated key of a slice the elements past its new length are zero here; Go may
  show stale ones again if a third one makes it longer.)
\<close>

type_synonym 'a jdec = "json \<Rightarrow> 'a \<Rightarrow> 'a result"

definition err_json_type :: goerr where
  "err_json_type = LibError ''json: cannot unmarshal value''"

definition err_json_syntax :: goerr where
  "err_json_syntax = LibError ''json: invalid text''"

definition json_Unmarshal :: "'a jdec \<Rightarrow> bytes \<Rightarrow> 'a \<Rightarrow> 'a result" where
  "json_Unmarshal dec data x =
     (case json_parse data of None \<Rightarrow> Inl err_json_syntax | Some j \<Rightarrow> dec j x)"

subsection \<open>Decoders\<close>

definition dec_string :: "string jdec" where
  "dec_string j old =
     (case j of JNull \<Rightarrow> Inr old | JStr s \<Rightarrow> Inr (json_unquote s) | _ \<Rightarrow> Inl err_json_type)"

definition dec_int64 :: "int64 jdec" where
  "dec_int64 j old =
     (case j of
        JNull \<Rightarrow> Inr old
      | JNum n \<Rightarrow> (case Atoi n of Inl _ \<Rightarrow> Inl err_json_type | Inr i \<Rightarrow> Inr (word_of_int i))
      | _ \<Rightarrow> Inl err_json_type)"

definition dec_bool :: "bool jdec" where
  "dec_bool j old =
     (case j of JNull \<Rightarrow> Inr old | JBool b \<Rightarrow> Inr b | _ \<Rightarrow> Inl err_json_type)"

definition dec_ptr :: "'a \<Rightarrow> 'a jdec \<Rightarrow> 'a option jdec" where
  "dec_ptr zero dec j old =
     (if j = JNull then Inr None
      else bind_result (dec j (case old of None \<Rightarrow> zero | Some x \<Rightarrow> x)) (\<lambda>x. Inr (Some x)))"

fun dec_elems :: "'a \<Rightarrow> 'a jdec \<Rightarrow> json list \<Rightarrow> 'a list \<Rightarrow> 'a list result" where
  "dec_elems zero dec [] old = Inr []"
| "dec_elems zero dec (v # vs) old =
     bind_result (dec v (case old of [] \<Rightarrow> zero | x # _ \<Rightarrow> x)) (\<lambda>y.
     bind_result (dec_elems zero dec vs (tl old)) (\<lambda>ys. Inr (y # ys)))"

definition dec_slice :: "'a \<Rightarrow> 'a jdec \<Rightarrow> 'a list jdec" where
  "dec_slice zero dec j old =
     (case j of JNull \<Rightarrow> Inr [] | JArr vs \<Rightarrow> dec_elems zero dec vs old | _ \<Rightarrow> Inl err_json_type)"

text \<open>
  A key names a field when it is equal to the field's name, or else when both are equal
  after folding case (for an ASCII name the two runes that fold to ASCII letters count).
\<close>

definition upper :: "char \<Rightarrow> char" where
  "upper c = (if in_bytes 97 122 c then char_of ((of_char c :: int) - 32) else c)"

fun fold_name :: "string \<Rightarrow> string" where
  "fold_name (a # b # c # s) =
     (if a = CHR 0xE2 \<and> b = CHR 0x84 \<and> c = CHR 0xAA then CHR ''K'' # fold_name s
      else if a = CHR 0xC5 \<and> b = CHR 0xBF then CHR ''S'' # fold_name (c # s)
      else upper a # fold_name (b # c # s))"
| "fold_name [a, b] =
     (if a = CHR 0xC5 \<and> b = CHR 0xBF then ''S'' else [upper a, upper b])"
| "fold_name [a] = [upper a]"
| "fold_name [] = []"

definition find_field :: "(string \<times> 'a jdec) list \<Rightarrow> string \<Rightarrow> 'a jdec option" where
  "find_field fs key =
     (case map_of fs key of
        Some d \<Rightarrow> Some d
      | None \<Rightarrow> map_option snd (find (\<lambda>f. fold_name (fst f) = fold_name key) fs))"

fun dec_members :: "(string \<times> 'a jdec) list \<Rightarrow> (string \<times> json) list \<Rightarrow> 'a \<Rightarrow> 'a result" where
  "dec_members fs [] x = Inr x"
| "dec_members fs ((k, v) # kvs) x =
     (case find_field fs (json_unquote k) of
        None \<Rightarrow> dec_members fs kvs x
      | Some d \<Rightarrow> bind_result (d v x) (dec_members fs kvs))"

definition dec_struct :: "(string \<times> 'a jdec) list \<Rightarrow> 'a jdec" where
  "dec_struct fs j old =
     (case j of JNull \<Rightarrow> Inr old | JObj kvs \<Rightarrow> dec_members fs kvs old | _ \<Rightarrow> Inl err_json_type)"

text \<open>The decoder of one field: decode into the field's value, then store it.\<close>

definition dec_field :: "('a \<Rightarrow> 'b) \<Rightarrow> ('b \<Rightarrow> 'a \<Rightarrow> 'a) \<Rightarrow> 'b jdec \<Rightarrow> 'a jdec" where
  "dec_field getf putf d j x = bind_result (d j (getf x)) (\<lambda>y. Inr (putf y x))"

subsection \<open>Encoders\<close>

definition enc_string :: "string \<Rightarrow> json" where
  "enc_string s = JStr (json_quote s)"

definition enc_int64 :: "int64 \<Rightarrow> json" where
  "enc_int64 w = JNum (FormatInt w)"

text \<open>A field tagged \<open>omitempty\<close> is left out when its value is empty.\<close>

definition omitempty :: "bool \<Rightarrow> string \<Rightarrow> json \<Rightarrow> (string \<times> json) list" where
  "omitempty isEmpty k v = (if isEmpty then [] else [(k, v)])"

subsection \<open>The interface of a type that is marshalled and unmarshalled\<close>

text \<open>
  The contract of an encoder and its decoder: on the values \<open>good\<close> for the format, the
  encoding is printable, not null, nested no deeper than \<open>depth\<close>, and decodes to the value
  whatever the target held.  Pointers, slices and whole texts follow.
\<close>

locale json_codec =
  fixes enc :: "'a \<Rightarrow> json" and dec :: "'a jdec" and good :: "'a \<Rightarrow> bool" and depth :: nat
  assumes dec_enc: "good x \<Longrightarrow> dec (enc x) old = Inr x"
    and enc_wf: "good x \<Longrightarrow> json_wf (enc x)"
    and enc_depth: "good x \<Longrightarrow> json_depth (enc x) \<le> depth"
    and enc_not_null: "enc x \<noteq> JNull"
begin

lemma dec_ptr_enc: "good x \<Longrightarrow> dec_ptr zero dec (enc x) old = Inr (Some x)"
  by (simp add: dec_ptr_def dec_enc enc_not_null)

lemma dec_elems_enc: "list_all good xs \<Longrightarrow> dec_elems zero dec (map enc xs) old = Inr xs"
  by (induction xs arbitrary: old) (simp_all add: dec_enc)

lemma dec_slice_enc: "list_all good xs \<Longrightarrow> dec_slice zero dec (JArr (map enc xs)) old = Inr xs"
  by (simp add: dec_slice_def dec_elems_enc)

lemma slice_wf: "list_all good xs \<Longrightarrow> json_wf (JArr (map enc xs))"
  by (auto simp: list_all_iff enc_wf)

lemma slice_depth: "list_all good xs \<Longrightarrow> json_depth (JArr (map enc xs)) \<le> Suc depth"
  by (auto simp: list_all_iff enc_depth)

lemma field_enc: "good x \<Longrightarrow> dec_field getf putf dec (enc x) y = Inr (putf x y)"
  by (simp add: dec_field_def dec_enc)

lemma Unmarshal_Marshal:
  assumes "good x" and "depth \<le> max_depth"
  shows "json_Unmarshal dec (json_print (enc x)) old = Inr x"
proof -
  have "json_depth (enc x) \<le> max_depth" using enc_depth [OF assms(1)] assms(2) by simp
  then show ?thesis
    using json_parse_print [OF enc_wf [OF assms(1)]] by (simp add: json_Unmarshal_def dec_enc assms(1))
qed

lemma Marshal_inject:
  assumes "good x" "good y" "depth \<le> max_depth" "json_print (enc x) = json_print (enc y)"
  shows "x = y"
  using Unmarshal_Marshal [OF assms(1,3)] Unmarshal_Marshal [OF assms(2,3)] assms(4) by (metis sum.inject(2))

end

subsection \<open>The basic types\<close>

interpretation json_str: json_codec enc_string dec_string ValidString 0
  by unfold_locales (simp_all add: enc_string_def dec_string_def json_unquote_quote wf_json_quote)

lemma dec_digits_lead: "0 < n \<Longrightarrow> hd (dec_digits n) \<noteq> CHR ''0''"
proof (induction n rule: dec_digits.induct)
  case (1 n)
  show ?case
  proof (cases "n < 10")
    case True
    have "digit_char n \<noteq> CHR ''0''"
    proof
      assume "digit_char n = CHR ''0''"
      then have "digit_val (digit_char n) = Some 0" by (simp add: digit_val_def)
      then show False using digit_val_char [of n] 1 True by simp
    qed
    then show ?thesis using True by (subst dec_digits.simps) simp
  next
    case False
    then show ?thesis using 1 dec_digits_nonempty [of "n div 10"] by (subst dec_digits.simps) simp
  qed
qed

lemma dec_digits_0: "dec_digits 0 = ''0''"
  by code_simp

lemma lex_unsigned_digits:
  assumes "0 \<le> n"
  shows "lex_unsigned (dec_digits n) = Some (dec_digits n, [])"
proof -
  obtain c cs where d: "dec_digits n = c # cs" using dec_digits_nonempty [of n] by (cases "dec_digits n") auto
  have dg: "list_all is_digit (c # cs)"
    using dec_digits_set [OF assms] unfolding d list_all_iff is_digit_def by blast
  have "lex_int (c # cs) = Some (c # cs, [])"
  proof (cases "c = CHR ''0''")
    case True
    then have "\<not> 0 < n" using dec_digits_lead [of n] d by auto
    then have "n = 0" using assms by simp
    then have "c # cs = ''0''" using d dec_digits_0 by simp
    then show ?thesis by (simp add: lex_int_def)
  next
    case False
    have "takeWhile is_digit cs = cs" "dropWhile is_digit cs = []"
      using dg by (simp_all add: list_all_iff takeWhile_eq_all_conv)
    then show ?thesis using False dg by (simp add: lex_int_def)
  qed
  then show ?thesis by (simp add: d lex_unsigned_def lex_frac_def lex_exp_def)
qed

lemma wf_FormatInt: "wf_num_lit (FormatInt w)"
proof (cases "sint w < 0")
  case True
  then show ?thesis
    by (simp add: wf_num_lit_def FormatInt_def lex_num_def lex_unsigned_digits)
next
  case False
  then have n: "0 \<le> sint w" by simp
  obtain c cs where d: "dec_digits (sint w) = c # cs"
    using dec_digits_nonempty [of "sint w"] by (cases "dec_digits (sint w)") auto
  have "c \<noteq> CHR ''-''" using dec_digits_set [OF n] unfolding d by auto
  then show ?thesis using False lex_unsigned_digits [OF n]
    by (simp add: wf_num_lit_def FormatInt_def lex_num_def d)
qed

interpretation json_int64: json_codec enc_int64 dec_int64 "\<lambda>_. True" 0
  by unfold_locales (simp_all add: enc_int64_def dec_int64_def Atoi_FormatInt wf_FormatInt)

interpretation json_bool: json_codec JBool dec_bool "\<lambda>_. True" 0
  by unfold_locales (simp_all add: dec_bool_def)

text \<open>Field names stand for themselves.\<close>

definition simple_name :: "string \<Rightarrow> bool" where
  "simple_name s \<longleftrightarrow> list_all (\<lambda>c. plain c \<and> (of_char c :: int) < 128) s"

lemma json_unquote_simple: "simple_name s \<Longrightarrow> json_unquote s = s"
proof (induction s)
  case (Cons c s)
  then have "c \<noteq> CHR 0x5C" "(of_char c :: int) < 128" "simple_name s"
    by (simp_all add: simple_name_def plain_def)
  then show ?case using Cons.IH of_char_int_bounds [of c] by (simp add: EncodeRune_ascii)
qed simp

lemma wf_simple: "simple_name s \<Longrightarrow> wf_str_lit s"
  using lit_prefix_plain [of s] by (simp add: simple_name_def wf_str_lit_def lit_prefix_def list_all_iff)

declare json_unquote.simps [simp del]

text \<open>A member whose key is the plain name of a field goes to that field.\<close>

lemma dec_members_field:
  assumes "simple_name k" and "map_of fs k = Some d"
  shows "dec_members fs ((k, v) # kvs) x = bind_result (d v x) (dec_members fs kvs)"
  using assms by (simp add: json_unquote_simple find_field_def)

declare dec_members.simps(2) [simp del]

end
