(* ===== verification/Go_Ftoa.thy ===== *)
theory Go_Ftoa
  imports Go_Float Go_JsonStruct
begin

section \<open>float64 in JSON: the shortest decimal and its parser\<close>

text \<open>
  \<open>strconv.FormatFloat(f, fmt, -1, 64)\<close> prints the shortest decimal that reads back as f,
  the closest to f of that length; \<open>json.Marshal\<close> picks the layout.  The search runs from
  a power of ten above f downwards, one decimal place at a time, to the place where the
  expansion of f is exact, so it always ends with a decimal that reads back.
\<close>

subsection \<open>Reading a decimal\<close>

text \<open>The float64 nearest to \<open>n * 10 powi k\<close>.\<close>

definition round_dec :: "bool \<Rightarrow> int \<Rightarrow> int \<Rightarrow> f64" where
  "round_dec s n k =
     (if 0 \<le> k then round_ratio s (n * 10 ^ nat k) 1 else round_ratio s n (10 ^ nat (- k)))"

fun dec_val :: "int \<Rightarrow> string \<Rightarrow> int" where
  "dec_val acc [] = acc"
| "dec_val acc (c # cs) = dec_val (acc * 10 + (of_char c - 48)) cs"

text \<open>The digits of an exponent: the package stops adding them past ten thousand.\<close>

fun exp_val :: "int \<Rightarrow> string \<Rightarrow> int" where
  "exp_val acc [] = acc"
| "exp_val acc (c # cs) = exp_val (if acc < 10000 then acc * 10 + (of_char c - 48) else acc) cs"

definition num_exp :: "string \<Rightarrow> int" where
  "num_exp s =
     (case s of
        [] \<Rightarrow> 0
      | _ # cs \<Rightarrow>
          (case cs of
             [] \<Rightarrow> 0
           | d # ds \<Rightarrow>
               if d = CHR ''-'' then - exp_val 0 ds
               else if d = CHR ''+'' then exp_val 0 ds else exp_val 0 cs))"

text \<open>\<open>strconv.ParseFloat\<close> on the text of a JSON number: infinity stands for out of range.\<close>

definition ParseFloat_num :: "string \<Rightarrow> f64" where
  "ParseFloat_num s =
     (let neg = (s \<noteq> [] \<and> hd s = CHR ''-'');
          s1 = (if neg then tl s else s);
          ip = takeWhile is_digit s1;
          s2 = dropWhile is_digit s1;
          dot = (s2 \<noteq> [] \<and> hd s2 = CHR ''.'');
          fp = (if dot then takeWhile is_digit (tl s2) else []);
          s3 = (if dot then dropWhile is_digit (tl s2) else s2)
      in round_dec neg (dec_val 0 (ip @ fp)) (num_exp s3 - int (length fp)))"

definition dec_float64 :: "f64 jdec" where
  "dec_float64 j old =
     (case j of
        JNull \<Rightarrow> Inr old
      | JNum n \<Rightarrow>
          (let f = ParseFloat_num n in if finite_f64 f then Inr f else Inl err_json_type)
      | _ \<Rightarrow> Inl err_json_type)"

subsection \<open>The shortest decimal\<close>

text \<open>Floor and remainder of \<open>m * 2 powi e / 10 powi k\<close>, as a quotient of integers.\<close>

definition scaled_num :: "int \<Rightarrow> int \<Rightarrow> int \<Rightarrow> int" where
  "scaled_num m e k = m * 2 ^ nat e * 10 ^ nat (- k)"

definition scaled_den :: "int \<Rightarrow> int \<Rightarrow> int" where
  "scaled_den e k = 2 ^ nat (- e) * 10 ^ nat k"

text \<open>The two neighbours with k decimal places, the closer one first.\<close>

definition neighbours :: "int \<Rightarrow> int \<Rightarrow> int \<Rightarrow> int list" where
  "neighbours m e k =
     (let n = scaled_num m e k; d = scaled_den e k; q = n div d; r = n mod d
      in if 2 * r < d \<or> (2 * r = d \<and> even q) then [q, q + 1] else [q + 1, q])"

definition top_place :: "int \<Rightarrow> int \<Rightarrow> int" where
  "top_place m e = ((bit_len m + e) * 30103) div 100000 + 1"

text \<open>The decimals tried, as pairs of digits and place.\<close>

definition candidates :: "int \<Rightarrow> int \<Rightarrow> (int \<times> int) list" where
  "candidates m e =
     concat (map (\<lambda>i. let k = max 0 (top_place m e) - int i in map (\<lambda>d. (d, k)) (neighbours m e k))
       [0..<nat (max 0 (top_place m e) + 1075)])"

definition shortest :: "int \<Rightarrow> int \<Rightarrow> (int \<times> int) option" where
  "shortest m e = find (\<lambda>(d, k). round_dec False d k = Fin False m e) (candidates m e)"

subsection \<open>Layout\<close>

text \<open>\<open>%f\<close>: \<open>digs\<close> are the digits and \<open>dp\<close> is where the decimal point stands among them.\<close>

definition fmt_f :: "string \<Rightarrow> int \<Rightarrow> string" where
  "fmt_f digs dp =
     (if dp \<le> 0 then ''0.'' @ replicate (nat (- dp)) (CHR ''0'') @ digs
      else if int (length digs) \<le> dp then digs @ replicate (nat dp - length digs) (CHR ''0'')
      else take (nat dp) digs @ ''.'' @ drop (nat dp) digs)"

text \<open>\<open>%e\<close>, with the exponent as \<open>json.Marshal\<close> leaves it (no padding to two digits).\<close>

definition fmt_e :: "string \<Rightarrow> int \<Rightarrow> string" where
  "fmt_e digs dp =
     take 1 digs @ (if length digs \<le> 1 then [] else CHR ''.'' # drop 1 digs)
     @ (if dp - 1 < 0 then ''e-'' @ dec_digits (1 - dp) else ''e+'' @ dec_digits (dp - 1))"

definition small_or_large :: "int \<Rightarrow> int \<Rightarrow> bool" where
  "small_or_large m e =
     (let n = m * 2 ^ nat e; d = 2 ^ nat (- e)
      in (case round_ratio False 1 1000000 of
            Fin _ lm le \<Rightarrow> n * 2 ^ nat (- le) < lm * 2 ^ nat le * d
          | _ \<Rightarrow> False)
         \<or> 10 ^ 21 * d \<le> n)"

text \<open>The float encoder of \<open>encoding/json\<close>: an error for what JSON cannot represent.\<close>

definition err_json_unsupported :: goerr where
  "err_json_unsupported = LibError ''json: unsupported value''"

fun fmt_json_float :: "f64 \<Rightarrow> string result" where
  "fmt_json_float (Fin s m e) =
     (let sign = (if s then ''-'' else []) in
      if m = 0 then Inr (sign @ ''0'')
      else
        (case shortest m e of
           None \<Rightarrow> Inl err_json_unsupported
         | Some (d, k) \<Rightarrow>
             let digs = dec_digits d; dp = int (length digs) + k
             in Inr (sign @ (if small_or_large m e then fmt_e digs dp else fmt_f digs dp))))"
| "fmt_json_float _ = Inl err_json_unsupported"

subsection \<open>The search ends, with a decimal that reads back\<close>

lemma powi_10: "(10::real) powi k = (if 0 \<le> k then 10 ^ nat k else 1 / 10 ^ nat (- k))"
  by (simp add: power_int_def inverse_eq_divide power_one_over)

lemma round_dec_ratio:
  assumes "0 \<le> n"
  obtains a b where "round_dec s n k = round_ratio s a b" "0 \<le> a" "0 < b"
    "real_of_int a / real_of_int b = of_int n * 10 powi k"
proof (cases "0 \<le> k")
  case True
  then show ?thesis using assms that [of "n * 10 ^ nat k" 1] by (simp add: round_dec_def powi_10)
next
  case False
  then show ?thesis using assms that [of n "10 ^ nat (- k)"] by (simp add: round_dec_def powi_10)
qed

lemma round_dec_cong:
  assumes "0 \<le> n" "0 \<le> n'" "real_of_int n * 10 powi k = of_int n' * 10 powi k'"
  shows "round_dec s n k = round_dec s n' k'"
proof -
  obtain a b where a: "round_dec s n k = round_ratio s a b" "0 \<le> a" "0 < b"
    "real_of_int a / real_of_int b = of_int n * 10 powi k" by (rule round_dec_ratio [OF assms(1)])
  obtain a' b' where b: "round_dec s n' k' = round_ratio s a' b'" "0 \<le> a'" "0 < b'"
    "real_of_int a' / real_of_int b' = of_int n' * 10 powi k'" by (rule round_dec_ratio [OF assms(2)])
  show ?thesis unfolding a(1) b(1) by (rule round_ratio_cong) (use a b assms(3) in simp_all)
qed

lemma round_dec_sign: "round_dec s n k = set_sign s (round_dec False n k)"
  unfolding round_dec_def using round_ratio_sign by metis

lemma round_dec_exact:
  assumes "wf_f64 (Fin s m e)" "m \<noteq> 0" "0 \<le> n" "real_of_int n * 10 powi k = of_int m * 2 powi e"
  shows "round_dec s n k = Fin s m e"
proof -
  obtain a b where a: "round_dec s n k = round_ratio s a b" "0 \<le> a" "0 < b"
    "real_of_int a / real_of_int b = of_int n * 10 powi k" by (rule round_dec_ratio [OF assms(3)])
  show ?thesis unfolding a(1) by (rule round_ratio_exact) (use a assms in simp_all)
qed

text \<open>The place where the expansion of a float64 ends, and the digits there.\<close>

definition last_place :: "int \<Rightarrow> int" where
  "last_place e = min e 0"

lemma neighbours_exact:
  assumes "0 \<le> m"
  shows "m * 2 ^ nat e * 5 ^ nat (- e) \<in> set (neighbours m e (last_place e))"
    and "real_of_int (m * 2 ^ nat e * 5 ^ nat (- e)) * 10 powi last_place e = of_int m * 2 powi e"
proof -
  have "scaled_num m e (last_place e) div scaled_den e (last_place e) = m * 2 ^ nat e * 5 ^ nat (- e)"
  proof (cases "0 \<le> e")
    case False
    have "(10::int) ^ nat (- e) = 5 ^ nat (- e) * 2 ^ nat (- e)" by (simp flip: power_mult_distrib)
    then show ?thesis using False by (simp add: scaled_num_def scaled_den_def last_place_def)
  qed (simp add: scaled_num_def scaled_den_def last_place_def)
  then show "m * 2 ^ nat e * 5 ^ nat (- e) \<in> set (neighbours m e (last_place e))"
    by (simp add: neighbours_def Let_def)
  show "real_of_int (m * 2 ^ nat e * 5 ^ nat (- e)) * 10 powi last_place e = of_int m * 2 powi e"
  proof (cases "0 \<le> e")
    case False
    have "(10::real) ^ nat (- e) = 5 ^ nat (- e) * 2 ^ nat (- e)" by (simp flip: power_mult_distrib)
    then show ?thesis using False by (simp add: last_place_def powi_10 powi_neg)
  qed (simp add: last_place_def powi_nonneg)
qed

lemma candidates_exact:
  assumes "0 \<le> m" "- 1074 \<le> e"
  shows "(m * 2 ^ nat e * 5 ^ nat (- e), last_place e) \<in> set (candidates m e)"
proof -
  define i where "i = nat (max 0 (top_place m e) - last_place e)"
  have "last_place e \<le> max 0 (top_place m e)" by (simp add: last_place_def min_le_iff_disj le_max_iff_disj)
  then have "max 0 (top_place m e) - int i = last_place e" by (simp add: i_def)
  moreover have "i < nat (max 0 (top_place m e) + 1075)"
  proof -
    have "- 1074 \<le> last_place e" using assms(2) by (simp add: last_place_def)
    then show ?thesis unfolding i_def by linarith
  qed
  ultimately show ?thesis
    unfolding candidates_def using neighbours_exact(1) [OF assms(1), of e]
    by (auto simp: Let_def intro!: bexI [of _ i])
qed

lemma find_ex: "x \<in> set xs \<Longrightarrow> P x \<Longrightarrow> \<exists>y. find P xs = Some y"
  by (induction xs) auto

lemma shortest_ex:
  assumes "wf_f64 (Fin s m e)" "m \<noteq> 0"
  shows "\<exists>d k. shortest m e = Some (d, k)"
proof -
  have w: "wf_f64 (Fin False m e)" "0 \<le> m" "- 1074 \<le> e" using assms(1) by auto
  have "round_dec False (m * 2 ^ nat e * 5 ^ nat (- e)) (last_place e) = Fin False m e"
    using w neighbours_exact(2) [OF w(2)] by (intro round_dec_exact [OF w(1) assms(2)]) simp_all
  then show ?thesis
    unfolding shortest_def using find_ex [OF candidates_exact [OF w(2,3)]] by fastforce
qed

lemma shortest_reads_back:
  assumes "shortest m e = Some (d, k)"
  shows "round_dec False d k = Fin False m e" and "(d, k) \<in> set (candidates m e)"
proof -
  obtain i where i: "i < length (candidates m e)" "candidates m e ! i = (d, k)"
    "round_dec False d k = Fin False m e"
    using assms by (auto simp: shortest_def find_Some_iff)
  show "round_dec False d k = Fin False m e" by (rule i(3))
  show "(d, k) \<in> set (candidates m e)" using i(1,2) nth_mem by metis
qed

lemma bit_len_le: "m < 2 ^ 53 \<Longrightarrow> bit_len m \<le> 53"
proof (cases "0 < m")
  case True
  assume "m < 2 ^ 53"
  show ?thesis
  proof (rule ccontr)
    assume "\<not> bit_len m \<le> 53"
    then have "(2::real) powi 53 \<le> 2 powi (bit_len m - 1)" by (intro powi_2_mono) simp
    then have "(2::real) powi 53 \<le> real_of_int m" using bit_len_bounds [OF True] by linarith
    moreover have "(2::real) powi 53 = of_int (2 ^ 53)" by (simp add: powi_nonneg)
    ultimately have "2 ^ 53 \<le> m" by (simp only: of_int_le_iff)
    then show False using \<open>m < 2 ^ 53\<close> by simp
  qed
qed (simp add: bit_len.simps)

lemma neighbours_bounds:
  assumes "d \<in> set (neighbours m e k)" "0 \<le> m"
  shows "0 \<le> d \<and> d \<le> scaled_num m e k + 1"
proof -
  let ?n = "scaled_num m e k" and ?D = "scaled_den e k"
  have d: "d = ?n div ?D \<or> d = ?n div ?D + 1"
    using assms(1) by (auto simp: neighbours_def Let_def split: if_splits)
  have n: "0 \<le> ?n" using assms(2) by (simp add: scaled_num_def)
  have "0 < ?D" by (simp add: scaled_den_def)
  then have "1 \<le> ?D" by linarith
  then have "?n div ?D \<le> ?n" using zdiv_mono2 [of ?n 1 ?D] n by simp
  moreover have "0 \<le> ?n div ?D" using n \<open>0 < ?D\<close> by (simp add: pos_imp_zdiv_nonneg_iff)
  ultimately show ?thesis using d by linarith
qed

text \<open>The bound on the digits, as powers the simplifier does not evaluate.\<close>

definition huge :: "nat \<Rightarrow> int" where
  "huge n = 10 ^ n"

lemma huge_add: "huge a * huge b = huge (a + b)"
  by (simp add: huge_def power_add)

lemma huge_mono: "a \<le> b \<Longrightarrow> huge a \<le> huge b"
  by (simp add: huge_def)

lemma huge_pos: "0 < huge a"
  by (simp add: huge_def)

lemma huge_succ: "huge (Suc n) = 10 * huge n"
  by (simp add: huge_def)

lemma mantissa_huge:
  assumes "0 \<le> m" "m < 2 ^ 53" "e \<le> 971"
  shows "m * 2 ^ nat e \<le> huge 1024"
proof -
  have "m * 2 ^ nat e \<le> 2 ^ 53 * 2 ^ 971"
    using assms by (intro mult_mono power_increasing) auto
  also have "\<dots> = (2::int) ^ 1024" by (simp only: flip: power_add) simp
  also have "\<dots> \<le> huge 1024" unfolding huge_def by (rule power_mono) simp_all
  finally show ?thesis .
qed

lemma candidates_bounds:
  assumes "(d, k) \<in> set (candidates m e)" "wf_f64 (Fin s m e)"
  shows "0 \<le> d" "d < huge 2100" "- 1074 \<le> k" "k \<le> 400"
proof -
  have w: "0 \<le> m" "m < 2 ^ 53" "e \<le> 971" using assms(2) by auto
  obtain i where i: "i < nat (max 0 (top_place m e) + 1075)" "k = max 0 (top_place m e) - int i"
    "d \<in> set (neighbours m e k)"
    using assms(1) by (auto simp: candidates_def Let_def)
  show k: "- 1074 \<le> k" using i(1,2) by auto
  have "bit_len m + e \<le> 1024" using bit_len_le [OF w(2)] w(3) by simp
  then have "((bit_len m + e) * 30103) div 100000 \<le> (1024 * 30103) div 100000"
    by (intro zdiv_mono1 mult_right_mono) simp_all
  then have "top_place m e \<le> 400" by (simp add: top_place_def)
  then show "k \<le> 400" using i(2) by linarith
  have d: "0 \<le> d \<and> d \<le> scaled_num m e k + 1" by (rule neighbours_bounds [OF i(3) w(1)])
  then show "0 \<le> d" by simp
  have "scaled_num m e k \<le> huge 1024 * huge 1074"
    unfolding scaled_num_def
  proof (rule mult_mono)
    show "m * 2 ^ nat e \<le> huge 1024" by (rule mantissa_huge [OF w])
    show "10 ^ nat (- k) \<le> huge 1074" unfolding huge_def using k by (intro power_increasing) auto
    show "0 \<le> huge 1024" using huge_pos [of 1024] by linarith
  qed simp
  also have "\<dots> = huge 2098" by (simp add: huge_add)
  finally have "d \<le> huge 2098 + 1" using d by linarith
  then show "d < huge 2100" using huge_succ [of 2098] huge_succ [of 2099] huge_pos [of 2098] by simp
qed

lemma dec_digits_length: "0 \<le> n \<Longrightarrow> n < huge (Suc k) \<Longrightarrow> length (dec_digits n) \<le> Suc k"
proof (induction k arbitrary: n)
  case 0
  then show ?case by (subst dec_digits.simps) (simp add: huge_def)
next
  case (Suc k)
  have "n div 10 < huge (Suc k)" using Suc.prems by (simp add: huge_def)
  with Suc show ?case by (subst dec_digits.simps) simp
qed

subsection \<open>The parts of a number text\<close>

text \<open>
  A number text put together from its integer digits, fraction digits and exponent text,
  each possibly signed; the parser takes it apart again and the lexer accepts it.
\<close>

definition num_text :: "bool \<Rightarrow> string \<Rightarrow> string \<Rightarrow> string \<Rightarrow> string" where
  "num_text s ip fp x =
     (if s then ''-'' else []) @ ip @ (if fp = [] then [] else CHR ''.'' # fp) @ x"

definition exp_text :: "string \<Rightarrow> bool" where
  "exp_text x \<longleftrightarrow> x = [] \<or>
     (\<exists>g ds. x = CHR ''e'' # g # ds \<and> (g = CHR ''+'' \<or> g = CHR ''-'') \<and> ds \<noteq> [] \<and> list_all is_digit ds)"

lemma take_digits:
  assumes "list_all is_digit a" "b = [] \<or> \<not> is_digit (hd b)"
  shows "takeWhile is_digit (a @ b) = a" "dropWhile is_digit (a @ b) = b"
  using assms by (induction a) (cases b; simp)+

lemma not_digits [simp]:
  "\<not> is_digit (CHR ''.'')" "\<not> is_digit (CHR ''e'')" "\<not> is_digit (CHR ''-'')" "\<not> is_digit (CHR ''+'')"
  by (simp_all add: is_digit_def)

lemma exp_text_stop: "exp_text x \<Longrightarrow> (x = [] \<or> \<not> is_digit (hd x)) \<and> (x = [] \<or> hd x \<noteq> CHR ''.'')"
  by (auto simp: exp_text_def)

lemma ParseFloat_parts:
  assumes "list_all is_digit ip" "ip \<noteq> []" "list_all is_digit fp" "exp_text x"
  shows "ParseFloat_num (num_text s ip fp x)
    = round_dec s (dec_val 0 (ip @ fp)) (num_exp x - int (length fp))"
proof -
  let ?rest = "(if fp = [] then [] else CHR ''.'' # fp) @ x"
  have h: "hd ip \<noteq> CHR ''-''" using assms(1,2) by (cases ip) auto
  have n: "num_text s ip fp x = (if s then CHR ''-'' # ip @ ?rest else ip @ ?rest)"
    by (simp add: num_text_def)
  have neg: "(num_text s ip fp x \<noteq> [] \<and> hd (num_text s ip fp x) = CHR ''-'') = s"
    using h assms(2) by (simp add: n)
  have s1: "(if s then tl (num_text s ip fp x) else num_text s ip fp x) = ip @ ?rest"
    by (cases s) (simp_all add: num_text_def)
  have r: "?rest = [] \<or> \<not> is_digit (hd ?rest)" using exp_text_stop [OF assms(4)] by auto
  note t = take_digits [OF assms(1) r]
  have f: "takeWhile is_digit (fp @ x) = fp" "dropWhile is_digit (fp @ x) = x"
    using take_digits [OF assms(3), of x] exp_text_stop [OF assms(4)] by auto
  show ?thesis
    unfolding ParseFloat_num_def Let_def neg s1 t
    using f exp_text_stop [OF assms(4)] by (cases "fp = []") (auto simp: hd_append)
qed

lemma num_exp_simps:
  "num_exp [] = 0"
  "num_exp (CHR ''e'' # CHR ''+'' # ds) = exp_val 0 ds"
  "num_exp (CHR ''e'' # CHR ''-'' # ds) = - exp_val 0 ds"
  by (simp_all add: num_exp_def)

lemma wf_num_text:
  assumes "list_all is_digit ip" "ip \<noteq> []" "hd ip = CHR ''0'' \<longrightarrow> ip = ''0''"
    "list_all is_digit fp" "exp_text x"
  shows "wf_num_lit (num_text s ip fp x)"
proof -
  let ?rest = "(if fp = [] then [] else CHR ''.'' # fp) @ x"
  have r: "?rest = [] \<or> \<not> is_digit (hd ?rest)" using exp_text_stop [OF assms(5)] by auto
  have i: "lex_int (ip @ ?rest) = Some (ip, ?rest)"
  proof (cases ip)
    case (Cons c cs)
    then show ?thesis
      using assms(1,3) take_digits [of cs ?rest, OF _ r] by (auto simp: lex_int_def)
  qed (use assms(2) in simp)
  have f: "lex_frac ?rest = Some (if fp = [] then [] else CHR ''.'' # fp, x)"
  proof (cases "fp = []")
    case True
    then show ?thesis using exp_text_stop [OF assms(5)] by (cases x) (auto simp: lex_frac_def)
  next
    case False
    then show ?thesis
      using take_digits [OF assms(4), of x] exp_text_stop [OF assms(5)]
      by (simp add: lex_frac_def lex_digits_def)
  qed
  have e: "lex_exp x = Some (x, [])"
  proof (cases "x = []")
    case False
    then obtain g ds where x: "x = CHR ''e'' # g # ds" "g = CHR ''+'' \<or> g = CHR ''-''"
      "ds \<noteq> []" "list_all is_digit ds" using assms(5) by (auto simp: exp_text_def)
    have d: "takeWhile is_digit ds = ds" "dropWhile is_digit ds = []"
      using take_digits [OF x(4), of "[]"] by simp_all
    have "lex_digits pre ds = Some (pre @ ds, [])" for pre
      unfolding lex_digits_def d using x(3) by simp
    then show ?thesis using x(1,2) by (auto simp: lex_exp_def)
  qed (simp add: lex_exp_def)
  have u: "lex_unsigned (ip @ ?rest) = Some (ip @ ?rest, [])"
    unfolding lex_unsigned_def i option.case prod.case f e by simp
  have h: "hd ip \<noteq> CHR ''-''" using assms(1,2) by (cases ip) auto
  show ?thesis
    using u h assms(2) by (cases ip) (auto simp: wf_num_lit_def lex_num_def num_text_def)
qed

lemma dec_val_append: "dec_val acc (a @ b) = dec_val (dec_val acc a) b"
  by (induction a arbitrary: acc) auto

lemma dec_val_zeros: "dec_val 0 (replicate k (CHR ''0'')) = 0"
  by (induction k) auto

lemma dec_val_zeros_right: "dec_val acc (replicate k (CHR ''0'')) = acc * 10 ^ k"
  by (induction k arbitrary: acc) auto

lemma digit_code: "0 \<le> d \<Longrightarrow> d < 10 \<Longrightarrow> (of_char (digit_char d) :: int) - 48 = d"
  by (drule (1) digit_cases, elim disjE; simp only:; code_simp)

lemma dec_val_digits: "0 \<le> n \<Longrightarrow> dec_val 0 (dec_digits n) = n"
proof (induction n rule: dec_digits.induct)
  case (1 n)
  show ?case
  proof (cases "n < 10")
    case True
    then show ?thesis using 1 digit_code [of n] by (subst dec_digits.simps) simp
  next
    case False
    then have "dec_val 0 (dec_digits (n div 10)) = n div 10" using 1 by simp
    then show ?thesis using False digit_code [of "n mod 10"]
      by (subst dec_digits.simps) (simp add: dec_val_append)
  qed
qed

lemma exp_val_digits: "0 \<le> n \<Longrightarrow> n < 100000 \<Longrightarrow> exp_val 0 (dec_digits n) = n"
proof -
  have app: "exp_val acc (a @ b) = exp_val (exp_val acc a) b" for acc a b
    by (induction a arbitrary: acc) auto
  show "0 \<le> n \<Longrightarrow> n < 100000 \<Longrightarrow> exp_val 0 (dec_digits n) = n"
  proof (induction n rule: dec_digits.induct)
    case (1 n)
    show ?case
    proof (cases "n < 10")
      case True
      then show ?thesis using 1 digit_code [of n] by (subst dec_digits.simps) simp
    next
      case False
      then have "exp_val 0 (dec_digits (n div 10)) = n div 10" "n div 10 < 10000" using 1 by auto
      then show ?thesis using False digit_code [of "n mod 10"]
        by (subst dec_digits.simps) (simp add: app)
    qed
  qed
qed

lemma dec_digits_all: "0 \<le> n \<Longrightarrow> list_all is_digit (dec_digits n)"
  using dec_digits_set [of n] unfolding list_all_iff is_digit_def by blast

lemma is_digit_0: "is_digit (CHR ''0'')"
  by (simp add: is_digit_def)

lemma exp_text_e: "0 \<le> n \<Longrightarrow> exp_text (''e-'' @ dec_digits n) \<and> exp_text (''e+'' @ dec_digits n)"
  using dec_digits_all [of n] dec_digits_nonempty [of n] by (simp add: exp_text_def)

text \<open>Both layouts are number texts with the value of the decimal.\<close>

definition layout_of :: "int \<Rightarrow> int \<Rightarrow> string \<Rightarrow> bool" where
  "layout_of d k str \<longleftrightarrow> (\<exists>ip fp x. str = num_text False ip fp x
     \<and> list_all is_digit ip \<and> ip \<noteq> [] \<and> (hd ip = CHR ''0'' \<longrightarrow> ip = ''0'')
     \<and> list_all is_digit fp \<and> exp_text x
     \<and> 0 \<le> dec_val 0 (ip @ fp)
     \<and> real_of_int (dec_val 0 (ip @ fp)) * 10 powi (num_exp x - int (length fp)) = of_int d * 10 powi k)"

lemma layout_ofI:
  assumes "str = num_text False ip fp x" "list_all is_digit ip" "ip \<noteq> []"
    "hd ip = CHR ''0'' \<Longrightarrow> ip = ''0''" "list_all is_digit fp" "exp_text x"
    "0 \<le> dec_val 0 (ip @ fp)"
    "real_of_int (dec_val 0 (ip @ fp)) * 10 powi (num_exp x - int (length fp)) = of_int d * 10 powi k"
  shows "layout_of d k str"
  unfolding layout_of_def using assms by blast

lemma fmt_f_layout:
  assumes d: "0 < d" and dp: "dp = int (length (dec_digits d)) + k"
  shows "layout_of d k (fmt_f (dec_digits d) dp)"
proof -
  let ?g = "dec_digits d"
  have g: "list_all is_digit ?g" "?g \<noteq> []" "hd ?g \<noteq> CHR ''0''" "dec_val 0 ?g = d"
    using dec_digits_all [of d] dec_digits_nonempty [of d] dec_digits_lead [OF d] dec_val_digits [of d] d
    by simp_all
  consider "dp \<le> 0" | "0 < dp" "int (length ?g) \<le> dp" | "0 < dp" "dp < int (length ?g)" by linarith
  then show ?thesis
  proof cases
    case 1
    let ?fp = "replicate (nat (- dp)) (CHR ''0'') @ ?g"
    have "dec_val 0 (''0'' @ ?fp) = d" using g(4) by (simp add: dec_val_append dec_val_zeros)
    moreover have "- int (length ?fp) = k" using 1 dp by simp
    moreover have "fmt_f ?g dp = num_text False ''0'' ?fp []"
      using 1 g(2) by (simp add: fmt_f_def num_text_def)
    ultimately show ?thesis
      using g(1) d 1
      by (intro layout_ofI [of _ "''0''" ?fp "[]"])
        (auto simp: is_digit_0 exp_text_def num_exp_simps list_all_iff)
  next
    case 2
    let ?z = "nat dp - length ?g"
    let ?ip = "?g @ replicate ?z (CHR ''0'')"
    have k: "0 \<le> k" "?z = nat k" using 2 dp by simp_all
    have "dec_val 0 (?ip @ []) = d * 10 ^ nat k"
      using g(4) by (simp add: dec_val_append dec_val_zeros_right k(2))
    moreover have "fmt_f ?g dp = num_text False ?ip [] []"
      using 2 by (simp add: fmt_f_def num_text_def)
    moreover have "hd ?ip \<noteq> CHR ''0''" using g(2,3) by simp
    moreover have "list_all is_digit ?ip" using g(1) by (auto simp: list_all_iff is_digit_0)
    ultimately show ?thesis
      using d g(2) k(1)
      by (intro layout_ofI [of _ ?ip "[]" "[]"]) (simp_all add: exp_text_def num_exp_simps powi_10)
  next
    case 3
    let ?ip = "take (nat dp) ?g" and ?fp = "drop (nat dp) ?g"
    have "?ip @ ?fp = ?g" by simp
    moreover have "- int (length ?fp) = k" using 3 dp by simp
    moreover have "fmt_f ?g dp = num_text False ?ip ?fp []"
      using 3 by (simp add: fmt_f_def num_text_def)
    moreover have "?ip \<noteq> []" "hd ?ip \<noteq> CHR ''0''" using 3 g(2,3) by (simp_all add: hd_take)
    moreover have "list_all is_digit ?ip" "list_all is_digit ?fp"
      using g(1) by (auto simp: list_all_iff dest: in_set_takeD in_set_dropD)
    ultimately show ?thesis
      using d g(4)
      by (intro layout_ofI [of _ ?ip ?fp "[]"])
        (simp_all add: exp_text_def num_exp_simps del: length_drop)
  qed
qed

lemma fmt_e_layout:
  assumes d: "0 < d" and dp: "dp = int (length (dec_digits d)) + k" and b: "- 9000 \<le> dp" "dp \<le> 9000"
  shows "layout_of d k (fmt_e (dec_digits d) dp)"
proof -
  let ?g = "dec_digits d"
  let ?ip = "take 1 ?g" and ?fp = "drop 1 ?g"
  let ?x = "if dp - 1 < 0 then ''e-'' @ dec_digits (1 - dp) else ''e+'' @ dec_digits (dp - 1)"
  have g: "list_all is_digit ?g" "?g \<noteq> []" "dec_val 0 (?ip @ ?fp) = d"
    using dec_digits_all [of d] dec_digits_nonempty [of d] dec_val_digits [of d] d by simp_all
  have h: "hd ?ip \<noteq> CHR ''0''" using dec_digits_lead [OF d] g(2) by (simp add: hd_take)
  have x: "exp_text ?x" "num_exp ?x = dp - 1"
    using exp_text_e [of "1 - dp"] exp_text_e [of "dp - 1"] b
    by (simp_all add: num_exp_simps exp_val_digits)
  have len: "1 \<le> length ?g" using g(2) by (cases ?g) auto
  then have K: "dp - 1 - int (length ?fp) = k" using dp by simp
  have "fmt_e ?g dp = num_text False ?ip ?fp ?x"
    using len by (cases "length ?g \<le> 1") (auto simp: fmt_e_def num_text_def)
  moreover have "list_all is_digit ?ip" "list_all is_digit ?fp"
    using g(1) by (auto simp: list_all_iff dest: in_set_takeD in_set_dropD)
  moreover have "?ip \<noteq> []" using g(2) by simp
  moreover have "real_of_int (dec_val 0 (?ip @ ?fp)) * 10 powi (num_exp ?x - int (length ?fp)) = of_int d * 10 powi k"
    unfolding x(2) K g(3) ..
  moreover have "0 \<le> dec_val 0 (?ip @ ?fp)" using g(3) d by simp
  ultimately show ?thesis unfolding layout_of_def using x(1) h by blast
qed

lemma layout_round_trip:
  assumes "layout_of d k str" "0 \<le> d"
  shows "ParseFloat_num ((if s then ''-'' else []) @ str) = round_dec s d k"
    and "wf_num_lit ((if s then ''-'' else []) @ str)"
proof -
  obtain ip fp x where l: "str = num_text False ip fp x" "list_all is_digit ip" "ip \<noteq> []"
    "hd ip = CHR ''0'' \<longrightarrow> ip = ''0''" "list_all is_digit fp" "exp_text x" "0 \<le> dec_val 0 (ip @ fp)"
    "real_of_int (dec_val 0 (ip @ fp)) * 10 powi (num_exp x - int (length fp)) = of_int d * 10 powi k"
    using assms(1) unfolding layout_of_def by blast
  have t: "(if s then ''-'' else []) @ str = num_text s ip fp x" by (simp add: l(1) num_text_def)
  show "ParseFloat_num ((if s then ''-'' else []) @ str) = round_dec s d k"
    unfolding t ParseFloat_parts [OF l(2,3,5,6)] by (rule round_dec_cong [OF l(7) assms(2) l(8)])
  show "wf_num_lit ((if s then ''-'' else []) @ str)"
    unfolding t by (rule wf_num_text [OF l(2-6)])
qed

text \<open>Every finite float64 is printed, and reads back as itself.\<close>

lemma fmt_json_float_reads_back:
  assumes "wf_f64 x" and "finite_f64 x"
  shows "\<exists>t. fmt_json_float x = Inr t \<and> wf_num_lit t \<and> ParseFloat_num t = x"
proof -
  obtain s m e where x: "x = Fin s m e" using assms(2) by (cases x) auto
  show ?thesis
  proof (cases "m = 0")
    case True
    then have e: "e = - 1074" using assms(1) by (simp add: x)
    have "ParseFloat_num (num_text s ''0'' [] []) = round_dec s 0 0"
      by (subst ParseFloat_parts) (simp_all add: is_digit_0 exp_text_def num_exp_simps)
    moreover have "wf_num_lit (num_text s ''0'' [] [])"
      by (rule wf_num_text) (simp_all add: is_digit_0 exp_text_def)
    ultimately show ?thesis using True e
      by (simp add: x num_text_def round_dec_def round_ratio_def)
  next
    case False
    obtain d k where sh: "shortest m e = Some (d, k)"
      using shortest_ex [of s m e] assms(1) False x by auto
    note rb = shortest_reads_back [OF sh]
    have w: "wf_f64 (Fin s m e)" using assms(1) by (simp add: x)
    note b = candidates_bounds [OF rb(2) w]
    have d: "0 < d"
    proof (rule ccontr)
      assume "\<not> 0 < d"
      then have "d = 0" using b(1) by simp
      then have "round_dec False d k = Fin False 0 (- 1074)" by (simp add: round_dec_def round_ratio_def)
      then show False using rb(1) False by simp
    qed
    have "length (dec_digits d) \<le> 2100" using dec_digits_length [OF b(1), of 2099] b(2) by simp
    then have dp: "- 9000 \<le> int (length (dec_digits d)) + k" "int (length (dec_digits d)) + k \<le> 9000"
      using b(3,4) by simp_all
    define str where "str = (if small_or_large m e then fmt_e (dec_digits d) (int (length (dec_digits d)) + k)
        else fmt_f (dec_digits d) (int (length (dec_digits d)) + k))"
    have l: "layout_of d k str"
      unfolding str_def using fmt_e_layout [OF d refl dp] fmt_f_layout [OF d refl] by simp
    have "set_sign s (Fin False m e) = Fin s m e" by (simp add: set_sign_def)
    then have "round_dec s d k = Fin s m e" using rb(1) round_dec_sign [of s d k] by simp
    then show ?thesis
      using layout_round_trip [OF l b(1), of s] False sh
      by (simp add: x Let_def str_def)
  qed
qed

text \<open>The JSON encoding of a finite float64.\<close>

definition enc_float64 :: "f64 \<Rightarrow> json" where
  "enc_float64 x = JNum (case fmt_json_float x of Inl _ \<Rightarrow> [] | Inr t \<Rightarrow> t)"

definition float_ok :: "f64 \<Rightarrow> bool" where
  "float_ok x \<longleftrightarrow> wf_f64 x \<and> finite_f64 x"

interpretation json_f64: json_codec enc_float64 dec_float64 float_ok 0
proof unfold_locales
  fix x old assume "float_ok x"
  then obtain t where t: "fmt_json_float x = Inr t" "wf_num_lit t" "ParseFloat_num t = x"
    "finite_f64 x" using fmt_json_float_reads_back [of x] by (auto simp: float_ok_def)
  show "dec_float64 (enc_float64 x) old = Inr x" using t by (simp add: enc_float64_def dec_float64_def)
  show "json_wf (enc_float64 x)" using t by (simp add: enc_float64_def)
qed (simp_all add: enc_float64_def)

end
