(* ===== verification/Go_Time.thy ===== *)
theory Go_Time
  imports Go_Ftoa
begin

section \<open>Go's time.Time in JSON\<close>

text \<open>
  An instant is the seconds and nanoseconds since the Unix epoch; \<open>MarshalJSON\<close> prints it
  in UTC in the format of RFC 3339 with up to nine decimals of the second, and
  \<open>UnmarshalJSON\<close> reads that format with any offset.  The location of a time that was
  read is not kept: no part of the repository prints one again.
\<close>

record gotime =
  t_sec :: int
  t_ns :: int

definition leap :: "nat \<Rightarrow> bool" where
  "leap y \<longleftrightarrow> y mod 4 = 0 \<and> (y mod 100 \<noteq> 0 \<or> y mod 400 = 0)"

definition year_len :: "nat \<Rightarrow> int" where
  "year_len y = (if leap y then 366 else 365)"

definition month_lens :: "nat \<Rightarrow> int list" where
  "month_lens y = [31, if leap y then 29 else 28, 31, 30, 31, 30, 31, 31, 30, 31, 30, 31]"

text \<open>Days from the first of January of the year zero to that of the year y.\<close>

fun days_before :: "nat \<Rightarrow> int" where
  "days_before 0 = 0"
| "days_before (Suc y) = days_before y + year_len y"

lemma year_len_pos: "0 < year_len y"
  by (simp add: year_len_def)

function year_of :: "nat \<Rightarrow> int \<Rightarrow> nat \<times> int" where
  "year_of y d = (if d < year_len y then (y, d) else year_of (Suc y) (d - year_len y))"
  by pat_completeness auto
termination
  by (relation "measure (\<lambda>(y, d). nat d)") (auto simp: year_len_def split: if_splits)

declare year_of.simps [simp del]

fun month_of :: "nat \<Rightarrow> int list \<Rightarrow> int \<Rightarrow> nat \<times> int" where
  "month_of m [] d = (m, d)"
| "month_of m (l # ls) d = (if d < l then (m, d) else month_of (Suc m) ls (d - l))"

definition epoch_days :: int where
  "epoch_days = 719528"

subsection \<open>Printing\<close>

fun dec_pad :: "nat \<Rightarrow> int \<Rightarrow> string" where
  "dec_pad 0 n = []"
| "dec_pad (Suc k) n = dec_pad k (n div 10) @ [digit_char (n mod 10)]"

definition frac_text :: "int \<Rightarrow> string" where
  "frac_text ns =
     (if ns = 0 then []
      else CHR ''.'' # rev (dropWhile (\<lambda>c. c = CHR ''0'') (rev (dec_pad 9 ns))))"

definition err_year :: goerr where
  "err_year = LibError ''Time.MarshalJSON: year outside of range [0,9999]''"

definition time_text :: "gotime \<Rightarrow> string result" where
  "time_text t =
     (let s = t_sec t + epoch_days * 86400; day = s div 86400; sod = s mod 86400
      in if s < 0 then Inl err_year
         else let (y, doy) = year_of 0 day; (m, d) = month_of 1 (month_lens y) doy
              in if 9999 < y then Inl err_year
                 else Inr (dec_pad 4 (int y) @ ''-'' @ dec_pad 2 (int m) @ ''-'' @ dec_pad 2 (d + 1)
                        @ ''T'' @ dec_pad 2 (sod div 3600) @ '':'' @ dec_pad 2 (sod div 60 mod 60)
                        @ '':'' @ dec_pad 2 (sod mod 60) @ frac_text (t_ns t) @ ''Z''))"

subsection \<open>Reading\<close>

text \<open>A field of k digits with a value in a range.\<close>

definition num_field :: "nat \<Rightarrow> int \<Rightarrow> int \<Rightarrow> string \<Rightarrow> (int \<times> string) option" where
  "num_field k lo hi s =
     (let ds = take k s; v = dec_val 0 ds
      in if length ds = k \<and> list_all is_digit ds \<and> lo \<le> v \<and> v \<le> hi then Some (v, drop k s)
         else None)"

definition expect :: "char \<Rightarrow> string \<Rightarrow> string option" where
  "expect c s = (if s \<noteq> [] \<and> hd s = c then Some (tl s) else None)"

definition parse_frac :: "string \<Rightarrow> int \<times> string" where
  "parse_frac s =
     (if 2 \<le> length s \<and> hd s = CHR ''.'' \<and> is_digit (s ! 1)
      then (dec_val 0 (take 9 (takeWhile is_digit (tl s) @ replicate 9 (CHR ''0''))),
            dropWhile is_digit (tl s))
      else (0, s))"

definition parse_offset :: "string \<Rightarrow> int option" where
  "parse_offset s =
     (if s = ''Z'' then Some 0
      else if length s = 6 \<and> (hd s = CHR ''+'' \<or> hd s = CHR ''-'') then
        (case num_field 2 0 23 (tl s) of None \<Rightarrow> None
         | Some (h, s1) \<Rightarrow>
             (case expect (CHR '':'') s1 of None \<Rightarrow> None
              | Some s2 \<Rightarrow>
                  (case num_field 2 0 59 s2 of None \<Rightarrow> None
                   | Some (m, _) \<Rightarrow>
                       Some ((if hd s = CHR ''-'' then - 1 else 1) * (h * 3600 + m * 60)))))
      else None)"

text \<open>A field followed by a separator.\<close>

definition field_sep :: "nat \<Rightarrow> int \<Rightarrow> int \<Rightarrow> char \<Rightarrow> string \<Rightarrow> (int \<times> string) option" where
  "field_sep k lo hi c s =
     (case num_field k lo hi s of None \<Rightarrow> None
      | Some (v, s1) \<Rightarrow> (case expect c s1 of None \<Rightarrow> None | Some s2 \<Rightarrow> Some (v, s2)))"

definition parse_time :: "string \<Rightarrow> gotime option" where
  "parse_time s =
     (case field_sep 4 0 9999 (CHR ''-'') s of None \<Rightarrow> None | Some (y, s) \<Rightarrow>
     (case field_sep 2 1 12 (CHR ''-'') s of None \<Rightarrow> None | Some (m, s) \<Rightarrow>
     (case field_sep 2 1 (month_lens (nat y) ! nat (m - 1)) (CHR ''T'') s of None \<Rightarrow> None | Some (d, s) \<Rightarrow>
     (case field_sep 2 0 23 (CHR '':'') s of None \<Rightarrow> None | Some (hr, s) \<Rightarrow>
     (case field_sep 2 0 59 (CHR '':'') s of None \<Rightarrow> None | Some (mi, s) \<Rightarrow>
     (case num_field 2 0 59 s of None \<Rightarrow> None | Some (sec, s) \<Rightarrow>
        let (ns, s) = parse_frac s
        in (case parse_offset s of None \<Rightarrow> None | Some off \<Rightarrow>
              Some \<lparr>t_sec = (days_before (nat y) + sum_list (take (nat (m - 1)) (month_lens (nat y)))
                            + (d - 1) - epoch_days) * 86400 + hr * 3600 + mi * 60 + sec - off,
                   t_ns = ns\<rparr>)))))))"

text \<open>\<open>UnmarshalJSON\<close> looks at the literal text: an escape in it is an error.\<close>

definition err_time :: goerr where
  "err_time = LibError ''parsing time''"

definition dec_time :: "gotime jdec" where
  "dec_time j old =
     (case j of
        JNull \<Rightarrow> Inr old
      | JStr s \<Rightarrow> (case parse_time s of None \<Rightarrow> Inl err_time | Some t \<Rightarrow> Inr t)
      | _ \<Rightarrow> Inl err_time)"

definition enc_time :: "gotime \<Rightarrow> json" where
  "enc_time t = JStr (case time_text t of Inl _ \<Rightarrow> [] | Inr s \<Rightarrow> s)"

subsection \<open>Reading what was printed\<close>

lemma year_of_spec:
  "0 \<le> d \<Longrightarrow> year_of y d = (y', d') \<Longrightarrow>
     days_before y + d = days_before y' + d' \<and> 0 \<le> d' \<and> d' < year_len y'"
proof (induction y d rule: year_of.induct)
  case (1 y d)
  show ?case
  proof (cases "d < year_len y")
    case True
    then show ?thesis using 1 by (simp add: year_of.simps [of y d])
  next
    case False
    then have "year_of (Suc y) (d - year_len y) = (y', d')" using 1 by (simp add: year_of.simps [of y d])
    then show ?thesis using 1 False by simp
  qed
qed

lemma month_of_spec:
  "0 \<le> d \<Longrightarrow> d < sum_list ls \<Longrightarrow> list_all (\<lambda>l. 0 < l) ls \<Longrightarrow> month_of m ls d = (m', d') \<Longrightarrow>
     m \<le> m' \<and> m' < m + length ls \<and> sum_list (take (m' - m) ls) + d' = d \<and> 0 \<le> d' \<and> d' < ls ! (m' - m)"
proof (induction m ls d rule: month_of.induct)
  case (2 m l ls d)
  show ?case
  proof (cases "d < l")
    case True
    then show ?thesis using 2 by simp
  next
    case False
    have h: "Suc m \<le> m' \<and> m' < Suc m + length ls \<and> sum_list (take (m' - Suc m) ls) + d' = d - l
        \<and> 0 \<le> d' \<and> d' < ls ! (m' - Suc m)"
      using False "2.prems" by (intro "2.IH") simp_all
    then have "m' - m = Suc (m' - Suc m)" by linarith
    then show ?thesis using h by simp
  qed
qed simp

lemma month_lens_sum: "sum_list (month_lens y) = year_len y"
  "list_all (\<lambda>l. 0 < l) (month_lens y)" "length (month_lens y) = 12"
  by (simp_all add: month_lens_def year_len_def)

lemma month_lens_le: "i < 12 \<Longrightarrow> month_lens y ! i \<le> 31"
  by (auto simp: month_lens_def nth_Cons' split: if_splits)

lemma dec_pad_props:
  "length (dec_pad k n) = k" "list_all is_digit (dec_pad k n)" "dec_val 0 (dec_pad k n) = n mod 10 ^ k"
proof -
  have m: "0 \<le> x mod 10" "x mod 10 < 10" for x :: int by simp_all
  show "length (dec_pad k n) = k" by (induction k arbitrary: n) simp_all
  show "list_all is_digit (dec_pad k n)"
    using digit_char_range [OF m] by (induction k arbitrary: n) (auto simp: is_digit_def)
  show "dec_val 0 (dec_pad k n) = n mod 10 ^ k"
  proof (induction k arbitrary: n)
    case (Suc k)
    have "n mod 10 ^ Suc k = n div 10 mod 10 ^ k * 10 + n mod 10"
      using mod_mult2_eq' [of n 10 "10 ^ k"] by (simp add: mult.commute)
    then show ?case using Suc [of "n div 10"] digit_code [OF m, of n] by (simp add: dec_val_append)
  qed simp
qed

lemma num_field_pad:
  assumes "lo \<le> n" "n \<le> hi" "0 \<le> n" "n < 10 ^ k"
  shows "num_field k lo hi (dec_pad k n @ s) = Some (n, s)"
  using assms dec_pad_props [of k n] by (simp add: num_field_def Let_def)

lemma field_sep_pad:
  assumes "lo \<le> n" "n \<le> hi" "0 \<le> n" "n < 10 ^ k"
  shows "field_sep k lo hi c (dec_pad k n @ c # s) = Some (n, s)"
  using num_field_pad [OF assms, of "c # s"] by (simp add: field_sep_def expect_def)

lemma strip_zeros:
  "\<exists>j. s = rev (dropWhile (\<lambda>c. c = CHR ''0'') (rev s)) @ replicate j (CHR ''0'')"
proof (induction s rule: rev_induct)
  case (snoc x xs)
  show ?case
  proof (cases "x = CHR ''0''")
    case True
    obtain j where j: "xs = rev (dropWhile (\<lambda>c. c = CHR ''0'') (rev xs)) @ replicate j (CHR ''0'')"
      using snoc by blast
    then have "xs @ [x] = rev (dropWhile (\<lambda>c. c = CHR ''0'') (rev (xs @ [x]))) @ replicate (Suc j) (CHR ''0'')"
      using True by (simp add: replicate_append_same [symmetric])
    then show ?thesis by blast
  next
    case False
    then show ?thesis by (intro exI [of _ 0]) simp
  qed
qed simp

lemma parse_frac_text:
  assumes "0 \<le> ns" "ns < 1000000000" "\<not> is_digit c" "c \<noteq> CHR ''.''"
  shows "parse_frac (frac_text ns @ c # s) = (ns, c # s)"
proof (cases "ns = 0")
  case True
  then show ?thesis using assms(4) by (simp add: frac_text_def parse_frac_def)
next
  case False
  let ?p = "dec_pad 9 ns"
  define q where "q = rev (dropWhile (\<lambda>c. c = CHR ''0'') (rev ?p))"
  obtain j where j: "?p = q @ replicate j (CHR ''0'')" unfolding q_def using strip_zeros by blast
  have v: "dec_val 0 ?p = ns" using dec_pad_props(3) [of 9 ns] assms(1,2) by simp
  have q: "q \<noteq> []"
  proof
    assume "q = []"
    then have "dec_val 0 ?p = 0" using j by (simp add: dec_val_zeros)
    then show False using v False by simp
  qed
  have dq: "list_all is_digit q" using dec_pad_props(2) [of 9 ns] unfolding j by simp
  have len: "length q + j = 9" using arg_cong [OF j, of length] dec_pad_props(1) [of 9 ns] by simp
  have t: "takeWhile is_digit (q @ c # s) = q" "dropWhile is_digit (q @ c # s) = c # s"
    using take_digits [OF dq, of "c # s"] assms(3) by simp_all
  have "take 9 (q @ replicate 9 (CHR ''0'')) = q @ replicate j (CHR ''0'')"
    using len by simp
  then have d: "dec_val 0 (take 9 (q @ replicate 9 (CHR ''0''))) = ns" using v j by simp
  obtain a b where ab: "q = a # b" using q by (cases q) auto
  then have "is_digit a" using dq by simp
  then show ?thesis
    using False t d ab by (simp add: frac_text_def q_def [symmetric] parse_frac_def)
qed

definition time_ok :: "gotime \<Rightarrow> bool" where
  "time_ok t \<longleftrightarrow> is_ok (time_text t) \<and> 0 \<le> t_ns t \<and> t_ns t < 1000000000"

lemma parse_time_text:
  assumes "time_text t = Inr s" "0 \<le> t_ns t" "t_ns t < 1000000000"
  shows "parse_time s = Some t"
proof -
  let ?a = "t_sec t + epoch_days * 86400"
  let ?day = "?a div 86400" and ?sod = "?a mod 86400"
  have a: "0 \<le> ?a" using assms(1) by (auto simp: time_text_def Let_def split: if_splits)
  obtain y doy where y: "year_of 0 ?day = (y, doy)" by (cases "year_of 0 ?day")
  obtain m d where m: "month_of 1 (month_lens y) doy = (m, d)" by (cases "month_of 1 (month_lens y) doy")
  have y9: "y \<le> 9999" using assms(1) a y m by (auto simp: time_text_def Let_def split: if_splits)
  have s: "s = dec_pad 4 (int y) @ CHR ''-'' # dec_pad 2 (int m) @ CHR ''-'' # dec_pad 2 (d + 1)
     @ CHR ''T'' # dec_pad 2 (?sod div 3600) @ CHR '':'' # dec_pad 2 (?sod div 60 mod 60)
     @ CHR '':'' # dec_pad 2 (?sod mod 60) @ frac_text (t_ns t) @ ''Z''"
    using assms(1) a y m y9 by (simp add: time_text_def Let_def)
  have "0 \<le> ?day" using a by simp
  then have Y: "?day = days_before y + doy \<and> 0 \<le> doy \<and> doy < year_len y"
    using year_of_spec [OF _ y] by simp
  have M: "1 \<le> m \<and> m < 13 \<and> sum_list (take (m - 1) (month_lens y)) + d = doy \<and> 0 \<le> d
      \<and> d < month_lens y ! (m - 1)"
    using month_of_spec [OF _ _ _ m] Y month_lens_sum by simp
  have d31: "month_lens y ! (m - 1) \<le> 31" using M by (intro month_lens_le) linarith
  have nm: "nat (int m - 1) = m - 1" by simp
  have sod: "0 \<le> ?sod" "?sod < 86400" by simp_all
  have h: "0 \<le> ?sod div 3600" "?sod div 3600 \<le> 23" using sod by linarith+
  have f1: "field_sep 4 0 9999 (CHR ''-'') (dec_pad 4 (int y) @ CHR ''-'' # r) = Some (int y, r)" for r
    by (rule field_sep_pad) (use y9 in simp_all)
  have f2: "field_sep 2 1 12 (CHR ''-'') (dec_pad 2 (int m) @ CHR ''-'' # r) = Some (int m, r)" for r
    by (rule field_sep_pad) (use M in simp_all)
  have f3: "field_sep 2 1 (month_lens y ! (m - 1)) (CHR ''T'') (dec_pad 2 (d + 1) @ CHR ''T'' # r)
      = Some (d + 1, r)" for r
    by (rule field_sep_pad) (use M d31 in simp_all)
  have f4: "field_sep 2 0 23 (CHR '':'') (dec_pad 2 (?sod div 3600) @ CHR '':'' # r)
      = Some (?sod div 3600, r)" for r
    by (rule field_sep_pad) (use h in simp_all)
  have f5: "field_sep 2 0 59 (CHR '':'') (dec_pad 2 (?sod div 60 mod 60) @ CHR '':'' # r)
      = Some (?sod div 60 mod 60, r)" for r
    by (rule field_sep_pad) simp_all
  have f6: "num_field 2 0 59 (dec_pad 2 (?sod mod 60) @ r) = Some (?sod mod 60, r)" for r
    by (rule num_field_pad) simp_all
  have f7: "parse_frac (frac_text (t_ns t) @ ''Z'') = (t_ns t, ''Z'')"
    using parse_frac_text [OF assms(2,3), of "CHR ''Z''" "[]"] by (simp add: is_digit_def)
  have sod3: "?sod div 3600 * 3600 + ?sod div 60 mod 60 * 60 + ?sod mod 60 = ?sod"
  proof -
    have "?sod div 3600 = ?sod div 60 div 60" by (simp flip: zdiv_zmult2_eq)
    then show ?thesis using div_mult_mod_eq [of ?sod 60] div_mult_mod_eq [of "?sod div 60" 60] by linarith
  qed
  have "(days_before y + sum_list (take (m - 1) (month_lens y)) + (d + 1 - 1) - epoch_days) * 86400
      = ?day * 86400 - epoch_days * 86400"
    using Y M by (simp add: algebra_simps)
  then have "(days_before y + sum_list (take (m - 1) (month_lens y)) + (d + 1 - 1) - epoch_days) * 86400
      + ?sod div 3600 * 3600 + ?sod div 60 mod 60 * 60 + ?sod mod 60 - 0 = t_sec t"
    using sod3 div_mult_mod_eq [of ?a 86400] by linarith
  then show ?thesis
    unfolding parse_time_def s f1 option.case prod.case f2 nat_int nm f3 f4 f5 f6 f7 Let_def
    by (simp add: parse_offset_def)
qed

lemma dec_pad_plain: "list_all plain (dec_pad k n)"
proof -
  have "plain c" if "is_digit c" for c
    using that by (auto simp: is_digit_def plain_def is_control_def)
  then show ?thesis using dec_pad_props(2) [of k n] by (simp add: list_all_iff)
qed

lemma frac_text_plain: "list_all plain (frac_text ns)"
proof -
  have "plain c" if "c \<in> set (rev (dropWhile (\<lambda>c. c = CHR ''0'') (rev (dec_pad 9 ns))))" for c
    using that dec_pad_plain [of 9 ns] set_dropWhileD [of c _ "rev (dec_pad 9 ns)"]
    by (auto simp: list_all_iff simp del: dec_pad.simps)
  then show ?thesis by (auto simp: frac_text_def list_all_iff plain_def is_control_def)
qed

lemma time_text_plain: "time_text t = Inr s \<Longrightarrow> list_all plain s"
  using dec_pad_plain frac_text_plain
  by (auto simp: time_text_def Let_def plain_def is_control_def simp del: dec_pad.simps
    split: if_splits prod.splits)

interpretation json_time: json_codec enc_time dec_time time_ok 0
proof unfold_locales
  fix t old assume t: "time_ok t"
  then obtain s where s: "time_text t = Inr s" by (auto simp: time_ok_def is_ok_iff)
  then show "dec_time (enc_time t) old = Inr t"
    using t parse_time_text [OF s] by (simp add: dec_time_def enc_time_def time_ok_def)
  show "json_wf (enc_time t)"
    using lit_prefix_plain [OF time_text_plain [OF s]]
    by (simp add: enc_time_def s wf_str_lit_def lit_prefix_def)
qed (simp_all add: enc_time_def)

end
