(* ===== verification/Core_Units.thy ===== *)
theory Core_Units
  imports Go_Float
begin

section \<open>core/units.go: units of revenue\<close>

text \<open>
  \<open>MicroDollars\<close> is an \<open>int64\<close>; \<open>Dollars\<close> and \<open>DollarsPerMille\<close> are float64.  The
  interface \<open>Currency\<close> has one method, \<open>AsMicros\<close>; the two types of the repository that
  implement it are the constructors of the datatype.  \<open>oor\<close> is what the platform's
  conversion from float64 to int64 gives for a value that does not fit.
\<close>

type_synonym MicroDollars = int64
type_synonym DollarsPerMille = f64

datatype Currency = CMicroDollars MicroDollars | CDollars f64

definition ZeroDollars :: MicroDollars where
  "ZeroDollars = 0"

definition MicroDollars_AsMicros :: "MicroDollars \<Rightarrow> MicroDollars" where
  "MicroDollars_AsMicros md = md"

definition Dollars_AsMicros :: "(f64 \<Rightarrow> int64) \<Rightarrow> f64 \<Rightarrow> MicroDollars" where
  "Dollars_AsMicros oor d = f64_to_int64 oor (f64_mult d (f64_of_int 1000000))"

definition DollarsPerMille_Dollars :: "DollarsPerMille \<Rightarrow> f64" where
  "DollarsPerMille_Dollars dpm = f64_div dpm (f64_of_int 1000)"

fun AsMicros :: "(f64 \<Rightarrow> int64) \<Rightarrow> Currency \<Rightarrow> MicroDollars" where
  "AsMicros oor (CMicroDollars md) = MicroDollars_AsMicros md"
| "AsMicros oor (CDollars d) = Dollars_AsMicros oor d"

subsection \<open>The value of a conversion\<close>

text \<open>
  The number of microdollars as a real function of the dollars and of the CPM: one
  rounding for each float64 operation, then the truncation.
\<close>

definition dollars_micros :: "real \<Rightarrow> int" where
  "dollars_micros v = rtrunc (rnds (v * 1000000))"

definition cpm_micros :: "real \<Rightarrow> int" where
  "cpm_micros v = dollars_micros (rnds (v / 1000))"

definition dollars_ok :: "f64 \<Rightarrow> bool" where
  "dollars_ok d \<longleftrightarrow> wf_f64 d \<and> finite_f64 d \<and> \<bar>val d\<bar> \<le> 10 ^ 12"

definition cpm_ok :: "DollarsPerMille \<Rightarrow> bool" where
  "cpm_ok d \<longleftrightarrow> wf_f64 d \<and> finite_f64 d \<and> \<bar>val d\<bar> \<le> 10 ^ 15"

lemma dollars_micros_mono: "v \<le> w \<Longrightarrow> dollars_micros v \<le> dollars_micros w"
  unfolding dollars_micros_def by (intro rtrunc_mono rnds_mono) simp

lemma cpm_micros_mono: "v \<le> w \<Longrightarrow> cpm_micros v \<le> cpm_micros w"
  unfolding cpm_micros_def by (intro dollars_micros_mono rnds_mono) simp

lemma rnds_10_18: "rnds (10 ^ 18) = 10 ^ 18"
  using rnds_exact [of "5 ^ 18" 18] by (simp add: powi_nonneg)

lemma rnds_bound:
  assumes "\<bar>x\<bar> \<le> b" and "rnds b = b"
  shows "\<bar>rnds x\<bar> \<le> b"
  using rnds_mono [of x b] rnds_mono [of "- b" x] assms by (auto simp: rnds_uminus abs_le_iff)

lemma Dollars_AsMicros_val:
  assumes "dollars_ok d"
  shows "sint (Dollars_AsMicros oor d) = dollars_micros (val d)"
proof -
  have d: "wf_f64 d" "finite_f64 d" and b: "\<bar>val d\<bar> \<le> 10 ^ 12"
    using assms by (auto simp: dollars_ok_def)
  let ?c = "f64_of_int 1000000"
  have c: "wf_f64 ?c" "finite_f64 ?c" "val ?c = 1000000"
    using f64_of_int_props(1) f64_of_int_exact [of 1000000] by auto
  have r: "\<bar>rnds (val d * 1000000)\<bar> \<le> 10 ^ 18"
    using b by (intro rnds_bound rnds_10_18) (simp add: abs_mult)
  have "(10::real) ^ 18 < 2 powi 63" by (simp add: powi_nonneg)
  also have "\<dots> \<le> f64_max_pow" unfolding f64_max_pow_def by (intro powi_2_mono) simp
  finally have big: "(10::real) ^ 18 < f64_max_pow" .
  let ?p = "f64_mult d ?c"
  have fin: "finite_f64 ?p"
    using r big unfolding f64_mult_props(2) [OF d(1) c(1) d(2) c(2)] c(3) by linarith
  have v: "val ?p = rnds (val d * 1000000)"
    using f64_mult_props(3) [OF d(1) c(1) d(2) c(2) fin] unfolding c(3) .
  have wf: "wf_f64 ?p" by (rule f64_mult_props(1) [OF d(1) c(1) d(2) c(2)])
  have t: "f64_trunc ?p = dollars_micros (val d)"
    unfolding f64_trunc_val [OF wf fin] v dollars_micros_def ..
  have "dollars_micros (val d) \<le> rtrunc (of_int (10 ^ 18))"
    "rtrunc (of_int (- (10 ^ 18))) \<le> dollars_micros (val d)"
    unfolding dollars_micros_def using r by (intro rtrunc_mono; simp)+
  then have range: "- (10 ^ 18) \<le> dollars_micros (val d)" "dollars_micros (val d) \<le> 10 ^ 18"
    by (simp_all only: rtrunc_of_int)
  then have "fits_int64 ?p"
    using fin t by (cases ?p) auto
  then have "Dollars_AsMicros oor d = word_of_int (dollars_micros (val d))"
    by (simp add: Dollars_AsMicros_def f64_to_int64_def t)
  moreover have "sint (word_of_int (dollars_micros (val d)) :: int64) = dollars_micros (val d)"
    using range by (intro sint_int64_of_int) auto
  ultimately show ?thesis by simp
qed

lemma rnds_10_12: "rnds (10 ^ 12) = 10 ^ 12"
  using rnds_int [of "10 ^ 12"] by simp

lemma DollarsPerMille_Dollars_ok:
  assumes "cpm_ok d"
  shows "dollars_ok (DollarsPerMille_Dollars d)"
    and "val (DollarsPerMille_Dollars d) = rnds (val d / 1000)"
proof -
  have d: "wf_f64 d" "finite_f64 d" and b: "\<bar>val d\<bar> \<le> 10 ^ 15"
    using assms by (auto simp: cpm_ok_def)
  let ?c = "f64_of_int 1000"
  have c: "wf_f64 ?c" "finite_f64 ?c" "val ?c = 1000"
    using f64_of_int_props(1) f64_of_int_exact [of 1000] by auto
  have r: "\<bar>rnds (val d / 1000)\<bar> \<le> 10 ^ 12"
    using b by (intro rnds_bound rnds_10_12) simp
  have big: "(10::real) ^ 12 < f64_max_pow"
    using f64_max_pow_big [of "10 ^ 12"] by simp
  have nz: "val ?c \<noteq> 0" by (simp add: c(3))
  let ?q = "f64_div d ?c"
  have fin: "finite_f64 ?q"
    using r big unfolding f64_div_props(2) [OF d(1) c(1) d(2) c(2) nz] c(3) by linarith
  have v: "val ?q = rnds (val d / 1000)"
    using f64_div_props(3) [OF d(1) c(1) d(2) c(2) nz fin] unfolding c(3) .
  have wf: "wf_f64 ?q" by (rule f64_div_props(1) [OF d(1) c(1) d(2) c(2) nz])
  show "dollars_ok (DollarsPerMille_Dollars d)"
    using fin wf v r by (simp add: dollars_ok_def DollarsPerMille_Dollars_def)
  show "val (DollarsPerMille_Dollars d) = rnds (val d / 1000)"
    by (simp add: DollarsPerMille_Dollars_def v)
qed

definition cpm_AsMicros :: "(f64 \<Rightarrow> int64) \<Rightarrow> DollarsPerMille \<Rightarrow> MicroDollars" where
  "cpm_AsMicros oor d = AsMicros oor (CDollars (DollarsPerMille_Dollars d))"

lemma cpm_AsMicros_val: "cpm_ok d \<Longrightarrow> sint (cpm_AsMicros oor d) = cpm_micros (val d)"
  by (simp add: cpm_AsMicros_def Dollars_AsMicros_val DollarsPerMille_Dollars_ok cpm_micros_def)

subsection \<open>The error of a conversion\<close>

lemma cpm_micros_small:
  assumes "\<bar>v\<bar> \<le> 1 / 2048"
  shows "cpm_micros v = 0"
proof -
  have e: "rnds (1 / 2 ^ 20) = 1 / 2 ^ 20" using rnds_exact [of 1 "- 20"] by (simp add: powi_neg)
  have "\<bar>rnds (v / 1000)\<bar> \<le> 1 / 2 ^ 20"
    using assms by (intro rnds_bound e) simp
  then have a: "\<bar>rnds (v / 1000) * 1000000\<bar> \<le> 15625 * 2 powi (- 14)"
    by (simp add: abs_mult powi_neg)
  have "\<bar>rnds (rnds (v / 1000) * 1000000)\<bar> \<le> 15625 * 2 powi (- 14)"
    using a rnds_exact [of 15625 "- 14"] by (intro rnds_bound) simp_all
  also have "\<dots> < 1" by (simp add: powi_neg)
  finally show ?thesis
    by (auto simp: cpm_micros_def dollars_micros_def rtrunc_def abs_less_iff floor_eq_iff)
qed

lemma cpm_micros_error:
  "\<bar>of_int (cpm_micros v) - 1000 * v\<bar> < 1 + \<bar>v\<bar> / 2 ^ 42"
proof (cases "\<bar>v\<bar> \<le> 1 / 2048")
  case True
  have "\<bar>1000 * v\<bar> < 1" using True by (simp add: abs_mult)
  moreover have "0 \<le> \<bar>v\<bar> / 2 ^ 42" by simp
  ultimately show ?thesis unfolding cpm_micros_small [OF True] by linarith
next
  case False
  define a where "a = rnds (v / 1000)"
  define b where "b = rnds (a * 1000000)"
  have tiny: "(2::real) powi (- 1022) \<le> 2 powi (- 22)" by (intro powi_2_mono) simp
  have p22: "(2::real) powi (- 22) = 1 / 4194304" by (simp add: powi_neg)
  have ea: "\<bar>a - v / 1000\<bar> \<le> \<bar>v / 1000\<bar> / 2 ^ 53"
    unfolding a_def using False tiny p22 by (intro rnds_rel_error) simp
  have abig: "1 / 4194304 \<le> \<bar>a * 1000000\<bar>"
    using ea False by (simp add: abs_le_iff abs_if split: if_splits)
  have eb: "\<bar>b - a * 1000000\<bar> \<le> \<bar>a * 1000000\<bar> / 2 ^ 53"
    unfolding b_def using abig tiny p22 by (intro rnds_rel_error) simp
  have et: "\<bar>of_int (cpm_micros v) - b\<bar> < 1"
    unfolding cpm_micros_def dollars_micros_def a_def [symmetric] b_def [symmetric]
    by (rule rtrunc_error)
  have "\<bar>b - 1000 * v\<bar> \<le> \<bar>v\<bar> / 2 ^ 42"
    using ea eb by (simp add: abs_le_iff abs_if split: if_splits)
  with et show ?thesis by linarith
qed

subsection \<open>The interface of a unit of revenue\<close>

text \<open>
  What a ranking by \<open>AsMicros\<close> relies on: a larger amount never becomes a smaller number
  of microdollars.  An accurate unit also bounds the distance between the two.
\<close>

locale revenue_unit =
  fixes as_micros :: "'c \<Rightarrow> MicroDollars" and worth :: "'c \<Rightarrow> real" and ok :: "'c \<Rightarrow> bool"
  assumes micros_mono:
    "ok x \<Longrightarrow> ok y \<Longrightarrow> worth x \<le> worth y \<Longrightarrow> sint (as_micros x) \<le> sint (as_micros y)"
begin

lemma micros_cong: "ok x \<Longrightarrow> ok y \<Longrightarrow> worth x = worth y \<Longrightarrow> as_micros x = as_micros y"
  using micros_mono [of x y] micros_mono [of y x] by (intro sint_int64_inject) simp

lemma micros_less_worth:
  "ok x \<Longrightarrow> ok y \<Longrightarrow> sint (as_micros x) < sint (as_micros y) \<Longrightarrow> worth x < worth y"
  using micros_mono [of y x] by (cases "worth x < worth y") auto

lemma best_worth_best_micros:
  assumes "list_all ok xs" and "x \<in> set xs" and "\<And>y. y \<in> set xs \<Longrightarrow> worth y \<le> worth x"
    and "y \<in> set xs"
  shows "sint (as_micros y) \<le> sint (as_micros x)"
  using assms by (intro micros_mono) (auto simp: list_all_iff)

end

locale accurate_unit = revenue_unit +
  fixes err :: "'a \<Rightarrow> real"
  assumes micros_err: "ok x \<Longrightarrow> \<bar>of_int (sint (as_micros x)) - worth x\<bar> < err x"
begin

lemma micros_separate:
  assumes "ok x" and "ok y" and "worth x + err x + err y \<le> worth y"
  shows "sint (as_micros x) < sint (as_micros y)"
  using micros_err [OF assms(1)] micros_err [OF assms(2)] assms(3) unfolding abs_less_iff by linarith

end

interpretation micro_unit: accurate_unit MicroDollars_AsMicros "\<lambda>md. of_int (sint md)" "\<lambda>_. True" "\<lambda>_. 1"
proof unfold_locales
  fix x y :: MicroDollars
  assume "real_of_int (sint x) \<le> real_of_int (sint y)"
  then show "sint (MicroDollars_AsMicros x) \<le> sint (MicroDollars_AsMicros y)"
    unfolding MicroDollars_AsMicros_def by (simp only: of_int_le_iff)
qed (simp add: MicroDollars_AsMicros_def)

interpretation dollar_unit: revenue_unit "Dollars_AsMicros oor" "\<lambda>d. 1000000 * val d" dollars_ok
  by unfold_locales (simp add: Dollars_AsMicros_val dollars_micros_mono)

interpretation cpm_unit: accurate_unit "cpm_AsMicros oor" "\<lambda>d. 1000 * val d" cpm_ok "\<lambda>d. 1 + \<bar>val d\<bar> / 2 ^ 42"
proof unfold_locales
  fix x y
  assume "cpm_ok x" "cpm_ok y" "1000 * val x \<le> 1000 * val y"
  then show "sint (cpm_AsMicros oor x) \<le> sint (cpm_AsMicros oor y)"
    by (simp add: cpm_AsMicros_val cpm_micros_mono)
next
  fix x
  assume "cpm_ok x"
  then show "\<bar>of_int (sint (cpm_AsMicros oor x)) - 1000 * val x\<bar> < 1 + \<bar>val x\<bar> / 2 ^ 42"
    by (simp only: cpm_AsMicros_val cpm_micros_error)
qed

subsection \<open>Properties of the units\<close>

text \<open>A CPM of 1.50 dollars as the nearest float64.\<close>

lemma cpm_150: "round_ratio False 3 2 = Fin False 6755399441055744 (- 52)"
  by code_simp

lemma val_cpm_150: "val (round_ratio False 3 2) = 3 / 2"
  by (simp add: cpm_150 sgn_of_def powi_neg)

lemma cpm_ok_150: "cpm_ok (round_ratio False 3 2)"
  by (simp add: cpm_ok_def cpm_150 sgn_of_def powi_neg)

text \<open>
  C28: a CPM of up to a thousand billion dollars converts to microdollars per impression with an
  error below one microdollar plus the relative error of the two float64 operations.
\<close>

theorem CPM_AsMicros_error:
  assumes "cpm_ok d"
  shows "\<bar>of_int (sint (AsMicros oor (CDollars (DollarsPerMille_Dollars d)))) - 1000 * val d\<bar>
    < 1 + \<bar>val d\<bar> / 2 ^ 42"
  using cpm_unit.micros_err [OF assms, of oor] unfolding cpm_AsMicros_def .

theorem CPM_AsMicros_error_witness:
  "\<bar>of_int (sint (AsMicros (\<lambda>_. 0) (CDollars (DollarsPerMille_Dollars (round_ratio False 3 2))))) - 1500\<bar>
    < (2 :: real)"
proof -
  have "(3 / 2 :: real) / 2 ^ 42 < 1" by simp
  then show ?thesis
    using CPM_AsMicros_error [OF cpm_ok_150, of "\<lambda>_. 0"] unfolding val_cpm_150 by linarith
qed

text \<open>
  The conversion keeps the order of prices: of two CPMs in range, the larger never becomes
  the smaller revenue, whatever the platform does with numbers out of range.
\<close>

lemma CPM_AsMicros_mono:
  assumes "cpm_ok c" and "cpm_ok d" and "val c \<le> val d"
  shows "sint (AsMicros oor (CDollars (DollarsPerMille_Dollars c)))
    \<le> sint (AsMicros oor' (CDollars (DollarsPerMille_Dollars d)))"
proof -
  have "cpm_AsMicros oor' d = cpm_AsMicros oor d"
    using assms(2) by (intro sint_int64_inject) (simp add: cpm_AsMicros_val)
  then show ?thesis
    using cpm_unit.micros_mono [OF assms(1,2), of oor] assms(3) by (simp add: cpm_AsMicros_def)
qed

text \<open>
  The conversion truncates: a CPM of 0.03 dollars, which is 30 microdollars per impression,
  becomes 29.
\<close>

lemma CPM_three_cents:
  "AsMicros oor (CDollars (DollarsPerMille_Dollars (round_ratio False 3 100))) = 29"
proof -
  have d: "DollarsPerMille_Dollars (round_ratio False 3 100) = Fin False 8854437155380584 (- 68)"
    by code_simp
  have m: "f64_mult (Fin False 8854437155380584 (- 68)) (f64_of_int 1000000)
      = Fin False 8444249301319679 (- 48)"
    by code_simp
  show ?thesis by (simp add: d m Dollars_AsMicros_def f64_to_int64_def)
qed

end
