(* ===== verification/Core_Arbiter.thy ===== *)
theory Core_Arbiter
  imports Core_Units
begin

section \<open>core/arbiter.go: ranking of resolved bids\<close>

text \<open>
  The wire-independent types of a bid and the ranking \<open>RankBids\<close>: copy, shuffle, stable
  sort by revenue descending, winner at the head.  A pointer that the code only reads is
  the value it points to, an \<open>option\<close> where it may be nil.  A panic is \<open>None\<close>.
\<close>

subsection \<open>Types\<close>

definition ErrNoEncryptedRevenue :: goerr where
  "ErrNoEncryptedRevenue = Sentinel ''no encrypted revenue data''"

definition ErrNoKey :: goerr where
  "ErrNoKey = Sentinel ''no key to decrypt encrypted revenue''"

text \<open>\<open>uuid.UUID\<close> is an array of 16 bytes.\<close>

type_synonym uuid = "128 word"

text \<open>The wire shape of a sealed revenue, \<open>enclaveapi.EncryptedBidPrice\<close> of openauction.\<close>

record EncryptedRevenue =
  AESKeyEncrypted :: string
  EncryptedPayload :: string
  Nonce :: string
  HashAlgorithm :: string

record Bid =
  ID :: uuid
  Source :: string
  CleartextRevenue :: "Currency option"
  EncryptedCPMDollars :: "EncryptedRevenue option"

record ArbiterBid =
  abBid :: "Bid option"
  Revenue :: MicroDollars
  Decrypted :: bool

record ArbitrateResponse =
  arBids :: "ArbiterBid list"
  Winner :: "ArbiterBid option"

subsection \<open>Shuffling\<close>

text \<open>
  A \<open>RandSource\<close> is what its method \<open>Shuffle(n, swap)\<close> does: the calls of \<open>swap\<close> it
  makes for a slice of length n, in order.  The closure indexes the slice, so a call out of
  range panics.
\<close>

type_synonym RandSource = "nat \<Rightarrow> (int \<times> int) list"

fun swap_elems :: "'a list \<Rightarrow> int \<times> int \<Rightarrow> 'a list option" where
  "swap_elems xs (i, j) =
     (if 0 \<le> i \<and> i < int (length xs) \<and> 0 \<le> j \<and> j < int (length xs)
      then Some (xs[nat i := xs ! nat j, nat j := xs ! nat i])
      else None)"

fun apply_swaps :: "'a list \<Rightarrow> (int \<times> int) list \<Rightarrow> 'a list option" where
  "apply_swaps xs [] = Some xs"
| "apply_swaps xs (s # ss) =
     (case swap_elems xs s of None \<Rightarrow> None | Some ys \<Rightarrow> apply_swaps ys ss)"

text \<open>
  \<open>rand.Shuffle\<close> of \<open>math/rand\<close>: for i from n - 1 down to 1 it swaps i with a j drawn
  from 0 to i.  \<open>int31n v m\<close> is the number \<open>Int31n\<close> makes of an accepted raw 32-bit draw.
\<close>

fun fy_swaps :: "(nat \<Rightarrow> nat) \<Rightarrow> RandSource" where
  "fy_swaps draw (Suc (Suc k)) = (int (Suc k), int (draw (Suc k))) # fy_swaps draw (Suc k)"
| "fy_swaps draw _ = []"

definition int31n :: "32 word \<Rightarrow> nat \<Rightarrow> nat" where
  "int31n v m = nat ((uint v * int m) div 2 ^ 32)"

definition rand_Shuffle :: "(nat \<Rightarrow> 32 word) \<Rightarrow> RandSource" where
  "rand_Shuffle v = fy_swaps (\<lambda>i. int31n (v i) (Suc i))"

subsection \<open>Sorting\<close>

definition cmp_Compare :: "int64 \<Rightarrow> int64 \<Rightarrow> int" where
  "cmp_Compare x y = (if sint x < sint y then - 1 else if sint y < sint x then 1 else 0)"

text \<open>
  \<open>slices.SortStableFunc\<close>: insertion sort moves each element left past those it is less
  than (the sorted prefix is kept last element first).
\<close>

fun insert_left :: "('a \<Rightarrow> 'a \<Rightarrow> int) \<Rightarrow> 'a \<Rightarrow> 'a list \<Rightarrow> 'a list" where
  "insert_left cmp x [] = [x]"
| "insert_left cmp x (y # ys) = (if cmp x y < 0 then y # insert_left cmp x ys else x # y # ys)"

definition SortStableFunc :: "('a \<Rightarrow> 'a \<Rightarrow> int) \<Rightarrow> 'a list \<Rightarrow> 'a list" where
  "SortStableFunc cmp xs = rev (foldl (\<lambda>acc x. insert_left cmp x acc) [] xs)"

definition by_revenue_desc :: "ArbiterBid \<Rightarrow> ArbiterBid \<Rightarrow> int" where
  "by_revenue_desc a b = cmp_Compare (Revenue b) (Revenue a)"

subsection \<open>RankBids\<close>

text \<open>\<open>mathrand\<close> is the shuffle of \<open>math/rand\<close>, used when no source is given.\<close>

definition RankBids ::
  "ArbiterBid list \<Rightarrow> RandSource option \<Rightarrow> RandSource \<Rightarrow> ArbitrateResponse option" where
  "RankBids bids randSource mathrand =
     (if length bids = 0 then Some \<lparr>arBids = [], Winner = None\<rparr>
      else
        let shuffle = (case randSource of None \<Rightarrow> mathrand | Some r \<Rightarrow> r)
        in case apply_swaps bids (shuffle (length bids)) of
             None \<Rightarrow> None
           | Some shuffled \<Rightarrow>
               let ranked = SortStableFunc by_revenue_desc shuffled
               in Some \<lparr>arBids = ranked, Winner = Some (ranked ! 0)\<rparr>)"

subsection \<open>The interface of a shuffle\<close>

lemma swap_elems_mset: "swap_elems xs s = Some ys \<Longrightarrow> mset ys = mset xs"
  by (cases s) (auto simp: mset_swap split: if_splits)

lemma swap_elems_length: "swap_elems xs s = Some ys \<Longrightarrow> length ys = length xs"
  by (cases s) (auto split: if_splits)

lemma apply_swaps_mset: "apply_swaps xs ss = Some ys \<Longrightarrow> mset ys = mset xs"
proof (induction ss arbitrary: xs)
  case (Cons s ss)
  then obtain zs where zs: "swap_elems xs s = Some zs" and "apply_swaps zs ss = Some ys"
    by (auto split: option.splits)
  then have "mset ys = mset zs" using Cons.IH by blast
  with swap_elems_mset [OF zs] show ?case by simp
qed simp

definition in_range :: "nat \<Rightarrow> int \<times> int \<Rightarrow> bool" where
  "in_range n s \<longleftrightarrow> 0 \<le> fst s \<and> fst s < int n \<and> 0 \<le> snd s \<and> snd s < int n"

lemma swap_elems_None: "swap_elems xs s = None \<longleftrightarrow> \<not> in_range (length xs) s"
  by (cases s) (auto simp: in_range_def)

lemma apply_swaps_None: "apply_swaps xs ss = None \<longleftrightarrow> (\<exists>s. s \<in> set ss \<and> \<not> in_range (length xs) s)"
proof (induction ss arbitrary: xs)
  case (Cons s ss)
  show ?case
  proof (cases "swap_elems xs s")
    case None
    then have "\<not> in_range (length xs) s" using swap_elems_None [of xs s] by simp
    moreover have "s \<in> set (s # ss)" by simp
    ultimately show ?thesis using None by (simp only: apply_swaps.simps option.case) blast
  next
    case (Some zs)
    then have "in_range (length xs) s" using swap_elems_None [of xs s] by simp
    with Some Cons.IH [of zs] swap_elems_length [OF Some] show ?thesis by auto
  qed
qed simp

locale shuffler =
  fixes calls :: RandSource
  assumes calls_in_range: "s \<in> set (calls n) \<Longrightarrow> in_range n s"
begin

lemma shuffle_no_panic: "\<exists>ys. apply_swaps xs (calls (length xs)) = Some ys"
  using calls_in_range [of _ "length xs"] apply_swaps_None [of xs "calls (length xs)"] by fastforce

lemma shuffle_perm: "\<exists>ys. apply_swaps xs (calls (length xs)) = Some ys \<and> mset ys = mset xs"
  using shuffle_no_panic [of xs] apply_swaps_mset by blast

end

lemma int31n_less: "0 < m \<Longrightarrow> int31n v m < m"
proof -
  assume m: "0 < m"
  have "uint v < 2 ^ 32" using uint_range_size [of v] by (simp add: word_size)
  then have "uint v * int m < 2 ^ 32 * int m" using m by (intro mult_strict_right_mono) auto
  then have "(uint v * int m) div 2 ^ 32 < int m" by (simp add: div_less_iff_less_mult mult.commute)
  then show ?thesis using m by (simp add: int31n_def nat_less_iff)
qed

lemma fy_swaps_in_range:
  "(\<And>i. draw i \<le> i) \<Longrightarrow> s \<in> set (fy_swaps draw n) \<Longrightarrow> in_range n s"
proof (induction draw n rule: fy_swaps.induct)
  case (1 draw k)
  have "draw (Suc k) < Suc (Suc k)" using "1.prems"(1) [of "Suc k"] by simp
  with 1 show ?case by (fastforce simp: in_range_def)
qed (auto simp: in_range_def)

interpretation math_rand: shuffler "rand_Shuffle v"
proof unfold_locales
  fix s n
  assume "s \<in> set (rand_Shuffle v n)"
  then show "in_range n s" unfolding rand_Shuffle_def
    by (rule fy_swaps_in_range [rotated]) (metis int31n_less less_Suc_eq_le zero_less_Suc)
qed

subsection \<open>The interface of a stable sort\<close>

text \<open>
  A stable sort by a descending key permutes its input, orders it, and keeps elements of
  one key in their order.  These three laws leave one result: any two such sorts agree.
\<close>

locale stable_sorter =
  fixes srt :: "'a list \<Rightarrow> 'a list" and key :: "'a \<Rightarrow> int"
  assumes srt_mset: "mset (srt xs) = mset xs"
    and srt_sorted: "sorted_wrt (\<lambda>a b. key b \<le> key a) (srt xs)"
    and srt_stable: "filter (\<lambda>x. key x = k) (srt xs) = filter (\<lambda>x. key x = k) xs"
begin

lemma srt_eq_sort_key: "srt xs = sort_key (\<lambda>x. - key x) xs"
proof -
  have "sorted (map (\<lambda>x. - key x) (srt xs))"
    using srt_sorted [of xs] by (simp add: sorted_wrt_map)
  moreover have "filter (\<lambda>y. - key x = - key y) (srt xs) = filter (\<lambda>y. - key x = - key y) xs" for x
    using srt_stable [of "key x" xs] by (simp add: eq_commute)
  ultimately show ?thesis
    using properties_for_sort_key [of "srt xs" xs "\<lambda>x. - key x"] srt_mset by simp
qed

lemma srt_head_max:
  assumes "xs \<noteq> []" and "x \<in> set xs"
  shows "key x \<le> key (srt xs ! 0)"
proof -
  have "x \<in> set (srt xs)" using srt_mset mset_eq_setD assms(2) by blast
  then show ?thesis
    using srt_sorted [of xs] by (cases "srt xs") auto
qed

lemma srt_length: "length (srt xs) = length xs"
  using srt_mset [of xs] by (metis size_mset)

end

lemma cmp_Compare_less: "cmp_Compare x y < 0 \<longleftrightarrow> sint x < sint y"
  by (simp add: cmp_Compare_def)

lemma insert_left_mset: "mset (insert_left cmp x ys) = add_mset x (mset ys)"
  by (induction ys) auto

lemma insert_left_set: "set (insert_left cmp x ys) = insert x (set ys)"
  by (induction ys) auto

definition revenue_key :: "ArbiterBid \<Rightarrow> int" where
  "revenue_key b = sint (Revenue b)"

lemma by_revenue_desc_less: "by_revenue_desc a b < 0 \<longleftrightarrow> revenue_key b < revenue_key a"
  by (simp add: by_revenue_desc_def cmp_Compare_less revenue_key_def)

lemma insert_left_sorted:
  "sorted_wrt (\<lambda>a b. revenue_key a \<le> revenue_key b) ys \<Longrightarrow>
     sorted_wrt (\<lambda>a b. revenue_key a \<le> revenue_key b) (insert_left by_revenue_desc x ys)"
  by (induction ys) (auto simp: by_revenue_desc_less insert_left_set not_less)

lemma insert_left_filter:
  "sorted_wrt (\<lambda>a b. revenue_key a \<le> revenue_key b) ys \<Longrightarrow>
     filter (\<lambda>b. revenue_key b = k) (insert_left by_revenue_desc x ys)
       = (if revenue_key x = k then [x] else []) @ filter (\<lambda>b. revenue_key b = k) ys"
  by (induction ys) (auto simp: by_revenue_desc_less)

lemma SortStable_fold:
  defines "step \<equiv> \<lambda>acc x. insert_left by_revenue_desc x acc"
  shows "mset (foldl step [] xs) = mset xs"
    and "sorted_wrt (\<lambda>a b. revenue_key a \<le> revenue_key b) (foldl step [] xs)"
    and "filter (\<lambda>b. revenue_key b = k) (foldl step [] xs) = rev (filter (\<lambda>b. revenue_key b = k) xs)"
  by (induction xs rule: rev_induct)
    (auto simp: step_def insert_left_mset insert_left_sorted insert_left_filter)

interpretation go_sort: stable_sorter "SortStableFunc by_revenue_desc" revenue_key
proof unfold_locales
  fix xs :: "ArbiterBid list" and k
  show "mset (SortStableFunc by_revenue_desc xs) = mset xs"
    by (simp add: SortStableFunc_def SortStable_fold)
  show "sorted_wrt (\<lambda>a b. revenue_key b \<le> revenue_key a) (SortStableFunc by_revenue_desc xs)"
    by (simp add: SortStableFunc_def sorted_wrt_rev SortStable_fold)
  show "filter (\<lambda>x. revenue_key x = k) (SortStableFunc by_revenue_desc xs)
      = filter (\<lambda>x. revenue_key x = k) xs"
    by (simp add: SortStableFunc_def SortStable_fold flip: rev_filter)
qed

end
