(* ===== verification/Go_Runtime.thy ===== *)
theory Go_Runtime
  imports Go_Time Core_Arbiter
begin

section \<open>The outside world: entropy, clock, and the libraries that are parameters\<close>

text \<open>
  What the code reads from outside is a \<open>world\<close> that every effectful operation takes and
  returns: the reads of \<open>crypto/rand\<close> (each an error or a stream of bytes), the readings of
  the clock and the draws of \<open>math/rand\<close>, each with the number of readings so far.
\<close>

text \<open>\<open>time.Now()\<close> has a wall clock and a monotonic reading in nanoseconds.\<close>

record clock_reading =
  wall :: gotime
  mono :: int

record world =
  entropy :: "nat \<Rightarrow> goerr + (nat \<Rightarrow> byte)"
  entropy_reads :: nat
  clock :: "nat \<Rightarrow> clock_reading"
  clock_reads :: nat
  shuffles :: "nat \<Rightarrow> nat \<Rightarrow> 32 word"
  shuffle_reads :: nat

type_synonym 'a io = "world \<Rightarrow> 'a \<times> world"

definition rand_Read :: "nat \<Rightarrow> bytes result io" where
  "rand_Read n w =
     ((case entropy w (entropy_reads w) of
         Inl e \<Rightarrow> Inl e
       | Inr f \<Rightarrow> Inr (map f [0..<n])),
      w\<lparr>entropy_reads := Suc (entropy_reads w)\<rparr>)"

definition time_Now :: "clock_reading io" where
  "time_Now w = (clock w (clock_reads w), w\<lparr>clock_reads := Suc (clock_reads w)\<rparr>)"

text \<open>The draws that the next \<open>rand.Shuffle\<close> of \<open>math/rand\<close> makes.\<close>

definition next_shuffle :: "(nat \<Rightarrow> 32 word) io" where
  "next_shuffle w = (shuffles w (shuffle_reads w), w\<lparr>shuffle_reads := Suc (shuffle_reads w)\<rparr>)"

text \<open>
  \<open>time.Since(start).Milliseconds()\<close>: the difference of the monotonic readings as an
  \<open>int64\<close> of nanoseconds (it saturates), divided towards zero.
\<close>

definition sat_int64 :: "int \<Rightarrow> int" where
  "sat_int64 i = max (- (2 ^ 63)) (min (2 ^ 63 - 1) i)"

definition since_ms :: "clock_reading \<Rightarrow> clock_reading \<Rightarrow> int64" where
  "since_ms start now =
     (let d = sat_int64 (mono now - mono start)
      in word_of_int (if d < 0 then - ((- d) div 1000000) else d div 1000000))"

text \<open>Sequencing of effectful calls that may fail.\<close>

definition bind_io :: "'a result io \<Rightarrow> ('a \<Rightarrow> 'b result io) \<Rightarrow> 'b result io" where
  "bind_io m f w = (case m w of (Inl e, w1) \<Rightarrow> (Inl e, w1) | (Inr x, w1) \<Rightarrow> f x w1)"

definition wrap_io :: "string \<Rightarrow> 'a result io \<Rightarrow> 'a result io" where
  "wrap_io s m w = (case m w of (r, w1) \<Rightarrow> (wrap_err s r, w1))"

definition lift_io :: "'a result \<Rightarrow> 'a result io" where
  "lift_io r w = (r, w)"

lemma bind_io_Inr_iff [result_simps]:
  "bind_io m f w = (Inr y, w2) \<longleftrightarrow> (\<exists>x w1. m w = (Inr x, w1) \<and> f x w1 = (Inr y, w2))"
  by (auto simp: bind_io_def split: sum.splits prod.splits)

lemma wrap_io_Inr_iff [result_simps]: "wrap_io s m w = (Inr y, w1) \<longleftrightarrow> m w = (Inr y, w1)"
  by (cases "m w") (auto simp: wrap_io_def result_simps)

lemma lift_io_Inr_iff [result_simps]: "lift_io r w = (Inr y, w1) \<longleftrightarrow> r = Inr y \<and> w1 = w"
  by (auto simp: lift_io_def)

lemma rand_Read_Inr_iff [result_simps]:
  "rand_Read n w = (Inr b, w1) \<longleftrightarrow>
     (\<exists>f. entropy w (entropy_reads w) = Inr f \<and> b = map f [0..<n]
        \<and> w1 = w\<lparr>entropy_reads := Suc (entropy_reads w)\<rparr>)"
  by (auto simp: rand_Read_def split: sum.splits)

lemma rand_Read_length: "rand_Read n w = (Inr b, w1) \<Longrightarrow> length b = n"
  by (auto simp: result_simps)

subsection \<open>RSA keys and the cryptographic packages\<close>

record rsa_PublicKey =
  rsa_N :: int
  rsa_E :: int

record rsa_PrivateKey =
  rsa_Public :: rsa_PublicKey
  rsa_D :: int
  rsa_Primes :: "int list"

text \<open>What \<open>x509.ParsePKIXPublicKey\<close> finds: an RSA key, or a key of another Go type.\<close>

datatype pkix_key = PkixRSA rsa_PublicKey | PkixOther string

record pem_Block =
  pem_Type :: string
  pem_Bytes :: bytes

text \<open>
  The packages \<open>crypto/rsa\<close> (OAEP with SHA-256 and no label; the seed is drawn from the
  entropy of the world), \<open>crypto/aes\<close> with \<open>crypto/cipher\<close> (GCM, no additional data),
  \<open>crypto/x509\<close> and \<open>encoding/pem\<close>.
\<close>

record crypto =
  EncryptOAEP :: "rsa_PublicKey \<Rightarrow> bytes \<Rightarrow> bytes \<Rightarrow> bytes result"
  DecryptOAEP :: "rsa_PrivateKey \<Rightarrow> bytes \<Rightarrow> bytes result"
  GCM_Seal :: "bytes \<Rightarrow> bytes \<Rightarrow> bytes \<Rightarrow> bytes"
  GCM_Open :: "bytes \<Rightarrow> bytes \<Rightarrow> bytes \<Rightarrow> bytes result"
  GenerateKey :: "nat \<Rightarrow> (nat \<Rightarrow> byte) \<Rightarrow> rsa_PrivateKey result"
  MarshalPKIX :: "rsa_PublicKey \<Rightarrow> bytes result"
  ParsePKIX :: "bytes \<Rightarrow> pkix_key result"
  pem_Encode :: "pem_Block \<Rightarrow> bytes"
  pem_Decode :: "bytes \<Rightarrow> pem_Block option"

text \<open>\<open>aes.NewCipher\<close> checks the length of the key; \<open>cipher.NewGCM\<close> takes any AES cipher.\<close>

definition err_aes_key :: goerr where
  "err_aes_key = LibError ''crypto/aes: invalid key size''"

definition aes_NewCipher :: "bytes \<Rightarrow> bytes result" where
  "aes_NewCipher key =
     (if length key = 16 \<or> length key = 24 \<or> length key = 32 then Inr key else Inl err_aes_key)"

definition cipher_NewGCM :: "bytes \<Rightarrow> bytes result" where
  "cipher_NewGCM block = Inr block"

definition gcm_NonceSize :: nat where
  "gcm_NonceSize = 12"

text \<open>
  What the packages document: decryption with the private half of a key pair undoes OAEP
  encryption, opening with the same key and nonce undoes sealing, and the PKIX and PEM
  formats read back.
\<close>

definition key_pair :: "crypto \<Rightarrow> rsa_PublicKey \<Rightarrow> rsa_PrivateKey \<Rightarrow> bool" where
  "key_pair C pub priv \<longleftrightarrow>
     (\<forall>seed msg ct. EncryptOAEP C pub seed msg = Inr ct \<longrightarrow> DecryptOAEP C priv ct = Inr msg)"

definition gcm_correct :: "crypto \<Rightarrow> bool" where
  "gcm_correct C \<longleftrightarrow>
     (\<forall>key nonce pt. length key = 32 \<and> length nonce = gcm_NonceSize \<longrightarrow>
        GCM_Open C key nonce (GCM_Seal C key nonce pt) = Inr pt)"

definition pkix_correct :: "crypto \<Rightarrow> bool" where
  "pkix_correct C \<longleftrightarrow>
     (\<forall>pub der. MarshalPKIX C pub = Inr der \<longrightarrow> ParsePKIX C der = Inr (PkixRSA pub))
     \<and> (\<forall>der. pem_Encode C \<lparr>pem_Type = ''PUBLIC KEY'', pem_Bytes = der\<rparr> \<noteq> []
           \<and> pem_Decode C (pem_Encode C \<lparr>pem_Type = ''PUBLIC KEY'', pem_Bytes = der\<rparr>)
             = Some \<lparr>pem_Type = ''PUBLIC KEY'', pem_Bytes = der\<rparr>)"

definition keygen_correct :: "crypto \<Rightarrow> bool" where
  "keygen_correct C \<longleftrightarrow>
     (\<forall>bits f priv. GenerateKey C bits f = Inr priv \<longrightarrow> key_pair C (rsa_Public priv) priv)"

lemma key_pairD:
  "key_pair C pub priv \<Longrightarrow> EncryptOAEP C pub seed msg = Inr ct \<Longrightarrow> DecryptOAEP C priv ct = Inr msg"
  by (simp add: key_pair_def)

lemma gcm_correctD:
  "gcm_correct C \<Longrightarrow> length key = 32 \<Longrightarrow> length nonce = gcm_NonceSize \<Longrightarrow>
     GCM_Open C key nonce (GCM_Seal C key nonce pt) = Inr pt"
  by (simp add: gcm_correct_def)

text \<open>
  An instance for the concrete examples, in which the laws hold: encryption appends a
  marker, and the numbers of a key are not used.
\<close>

definition ex_crypto :: crypto where
  "ex_crypto =
     \<lparr>EncryptOAEP = (\<lambda>pub seed msg. Inr (msg @ ''R'')),
      DecryptOAEP = (\<lambda>priv ct. if ct \<noteq> [] \<and> last ct = CHR ''R'' then Inr (butlast ct)
                                else Inl (LibError ''crypto/rsa: decryption error'')),
      GCM_Seal = (\<lambda>key nonce pt. pt @ ''G''),
      GCM_Open = (\<lambda>key nonce ct. if ct \<noteq> [] \<and> last ct = CHR ''G'' then Inr (butlast ct)
                                  else Inl (LibError ''cipher: message authentication failed'')),
      GenerateKey = (\<lambda>bits f. Inr \<lparr>rsa_Public = \<lparr>rsa_N = 33, rsa_E = 3\<rparr>, rsa_D = 7,
                                    rsa_Primes = [3, 11]\<rparr>),
      MarshalPKIX = (\<lambda>pub. if pub = \<lparr>rsa_N = 33, rsa_E = 3\<rparr> then Inr ''33'' else Inl (LibError ''x509'')),
      ParsePKIX = (\<lambda>der. Inr (PkixRSA \<lparr>rsa_N = 33, rsa_E = 3\<rparr>)),
      pem_Encode = (\<lambda>b. ''P'' @ pem_Bytes b),
      pem_Decode = (\<lambda>s. if s = [] then None else Some \<lparr>pem_Type = ''PUBLIC KEY'', pem_Bytes = tl s\<rparr>)\<rparr>"

definition ex_world :: world where
  "ex_world =
     \<lparr>entropy = (\<lambda>_. Inr (\<lambda>i. CHR ''a'')), entropy_reads = 0,
      clock = (\<lambda>i. \<lparr>wall = \<lparr>t_sec = - 62135596800, t_ns = 0\<rparr>, mono = int i * 1000000\<rparr>),
      clock_reads = 0, shuffles = (\<lambda>_ _. 0), shuffle_reads = 0\<rparr>"

lemma ex_crypto_laws: "key_pair ex_crypto pub priv" "gcm_correct ex_crypto" "pkix_correct ex_crypto"
  "keygen_correct ex_crypto"
  by (simp_all add: ex_crypto_def key_pair_def gcm_correct_def pkix_correct_def keygen_correct_def)

end
