(* ===== verification/Go_Base64.thy ===== *)
theory Go_Base64
  imports Go_Strconv
begin

section \<open>Go's encoding/base64, the standard encoding\<close>

text \<open>
  \<open>base64.StdEncoding\<close>: the alphabet of RFC 4648 with padding.  The decoder skips carriage
  returns and line feeds, wants full groups of four, allows padding in the last group only,
  and (not being strict) ignores the bits a short last group leaves over.  The offset in the
  text of a decoding error is not modelled.
\<close>

definition b64_char :: "int \<Rightarrow> char" where
  "b64_char d =
     (if d < 26 then char_of (65 + d)
      else if d < 52 then char_of (71 + d)
      else if d < 62 then char_of (d - 4)
      else if d = 62 then CHR ''+'' else CHR ''/'')"

definition b64_val :: "char \<Rightarrow> int option" where
  "b64_val c =
     (let k = of_char c in
      if 65 \<le> k \<and> k \<le> 90 then Some (k - 65)
      else if 97 \<le> k \<and> k \<le> 122 then Some (k - 71)
      else if 48 \<le> k \<and> k \<le> 57 then Some (k + 4)
      else if k = 43 then Some 62
      else if k = 47 then Some 63 else None)"

fun base64_EncodeToString :: "bytes \<Rightarrow> string" where
  "base64_EncodeToString [] = []"
| "base64_EncodeToString [a] =
     (let n = of_char a * 65536
      in [b64_char (n div 262144), b64_char (n div 4096 mod 64), CHR ''='', CHR ''=''])"
| "base64_EncodeToString [a, b] =
     (let n = of_char a * 65536 + of_char b * 256
      in [b64_char (n div 262144), b64_char (n div 4096 mod 64), b64_char (n div 64 mod 64),
          CHR ''=''])"
| "base64_EncodeToString (a # b # c # cs) =
     (let n = of_char a * 65536 + of_char b * 256 + of_char c
      in b64_char (n div 262144) # b64_char (n div 4096 mod 64) # b64_char (n div 64 mod 64)
         # b64_char (n mod 64) # base64_EncodeToString cs)"

text \<open>The groups of four, once the line ends are gone.\<close>

fun b64_groups :: "string \<Rightarrow> bytes option" where
  "b64_groups [] = Some []"
| "b64_groups (a # b # c # d # cs) =
     (case (b64_val a, b64_val b) of
        (Some w, Some x) \<Rightarrow>
          (case (b64_val c, b64_val d) of
             (Some y, Some z) \<Rightarrow>
               let n = w * 262144 + x * 4096 + y * 64 + z
               in map_option (\<lambda>bs. char_of (n div 65536) # char_of (n div 256 mod 256)
                                     # char_of (n mod 256) # bs) (b64_groups cs)
           | (Some y, None) \<Rightarrow>
               if d = CHR ''='' \<and> cs = []
               then let n = w * 262144 + x * 4096 + y * 64
                    in Some [char_of (n div 65536), char_of (n div 256 mod 256)]
               else None
           | (None, _) \<Rightarrow>
               if c = CHR ''='' \<and> d = CHR ''='' \<and> cs = []
               then Some [char_of ((w * 262144 + x * 4096) div 65536)]
               else None)
      | _ \<Rightarrow> None)"
| "b64_groups _ = None"

definition b64_no_eol :: "string \<Rightarrow> string" where
  "b64_no_eol s = filter (\<lambda>c. c \<noteq> CHR 0x0A \<and> c \<noteq> CHR 0x0D) s"

definition err_base64 :: goerr where
  "err_base64 = LibError ''illegal base64 data at input byte''"

definition base64_DecodeString :: "string \<Rightarrow> bytes result" where
  "base64_DecodeString s = of_option err_base64 (b64_groups (b64_no_eol s))"

subsection \<open>Decoding what was encoded\<close>

lemma of_char_char_of_int:
  "0 \<le> d \<Longrightarrow> d < 256 \<Longrightarrow> (of_char (char_of (d :: int)) :: int) = d"
  by (simp add: of_char_of)

lemma b64_val_char: "0 \<le> d \<Longrightarrow> d < 64 \<Longrightarrow> b64_val (b64_char d) = Some d"
proof -
  assume d: "0 \<le> d" "d < 64"
  have "b64_val (char_of k) = (if 65 \<le> k \<and> k \<le> 90 then Some (k - 65)
      else if 97 \<le> k \<and> k \<le> 122 then Some (k - 71)
      else if 48 \<le> k \<and> k \<le> 57 then Some (k + 4)
      else if k = 43 then Some 62 else if k = 47 then Some 63 else None)"
    if "0 \<le> k" "k < 256" for k :: int
    using that by (simp only: b64_val_def of_char_char_of_int Let_def)
  note v = this
  consider "d < 26" | "26 \<le> d" "d < 52" | "52 \<le> d" "d < 62" | "d = 62" | "d = 63"
    using d by linarith
  then show ?thesis
  proof cases
    case 1
    then show ?thesis using d v [of "65 + d"] by (simp add: b64_char_def)
  next
    case 2
    then show ?thesis using d v [of "71 + d"] by (simp add: b64_char_def)
  next
    case 3
    then show ?thesis using d v [of "d - 4"] by (simp add: b64_char_def)
  qed (simp_all add: b64_char_def b64_val_def)
qed

lemma b64_char_no_eol: "0 \<le> d \<Longrightarrow> d < 64 \<Longrightarrow> b64_char d \<noteq> CHR 0x0A \<and> b64_char d \<noteq> CHR 0x0D"
  using b64_val_char [of d] by (auto simp: b64_val_def)

lemma b64_val_pad [simp]: "b64_val (CHR ''='') = None"
  by (simp add: b64_val_def)

text \<open>The arithmetic of one group of three bytes and its four sextets.\<close>

lemma sextet_join:
  "n div 262144 * 262144 + n div 4096 mod 64 * 4096 + n div 64 mod 64 * 64 + n mod 64 = (n::int)"
proof -
  have d: "n div 4096 = n div 64 div 64" "n div 262144 = n div 64 div 64 div 64"
    by (simp_all flip: zdiv_zmult2_eq)
  show ?thesis unfolding d
    using div_mult_mod_eq [of n 64] div_mult_mod_eq [of "n div 64" 64]
      div_mult_mod_eq [of "n div 64 div 64" 64]
    by linarith
qed

lemma sextets:
  assumes "0 \<le> a" "a < 256" "0 \<le> b" "b < 256" "0 \<le> c" "c < (256::int)"
  defines "n \<equiv> a * 65536 + b * 256 + c"
  shows "0 \<le> n div 262144" "n div 262144 < 64"
    and "n div 65536 = a" "n div 256 mod 256 = b" "n mod 256 = c"
proof -
  have n: "0 \<le> n" "n < 16777216" using assms by auto
  then show "0 \<le> n div 262144" "n div 262144 < 64" by auto
  have "(b * 256 + c) div 65536 = 0" using assms by (intro div_pos_pos_trivial) auto
  moreover have "n = (b * 256 + c) + a * 65536" by (simp add: n_def)
  ultimately show "n div 65536 = a" by simp
  have "c div 256 = 0" "c mod 256 = c" using assms by (auto intro: div_pos_pos_trivial)
  moreover have m: "n = c + (a * 256 + b) * 256" by (simp add: n_def)
  ultimately have "n div 256 = a * 256 + b" by simp
  then show "n div 256 mod 256 = b" using assms by simp
  show "n mod 256 = c" unfolding m using \<open>c mod 256 = c\<close> by (simp only: mod_mult_self1)
qed

lemma sextet_range: "0 \<le> n div 64 mod 64 \<and> n div 64 mod 64 < (64::int)"
  "0 \<le> n div 4096 mod 64 \<and> n div 4096 mod 64 < (64::int)" "0 \<le> n mod 64 \<and> n mod 64 < (64::int)"
  by auto

lemmas sextet_simps = b64_val_char sextet_range

lemma b64_group4:
  assumes "0 \<le> n" "n < 16777216"
  shows "b64_groups (b64_char (n div 262144) # b64_char (n div 4096 mod 64)
            # b64_char (n div 64 mod 64) # b64_char (n mod 64) # cs)
         = map_option (\<lambda>bs. char_of (n div 65536) # char_of (n div 256 mod 256)
                             # char_of (n mod 256) # bs) (b64_groups cs)"
proof -
  have "0 \<le> n div 262144" "n div 262144 < 64" using assms by auto
  then show ?thesis by (simp only: b64_groups.simps b64_val_char sextet_range option.case
    prod.case Let_def sextet_join)
qed

lemma b64_group3:
  assumes "0 \<le> n" "n < 16777216" "n mod 64 = 0"
  shows "b64_groups [b64_char (n div 262144), b64_char (n div 4096 mod 64),
            b64_char (n div 64 mod 64), CHR ''='']
         = Some [char_of (n div 65536), char_of (n div 256 mod 256)]"
proof -
  have "0 \<le> n div 262144" "n div 262144 < 64" using assms by auto
  moreover have "n div 262144 * 262144 + n div 4096 mod 64 * 4096 + n div 64 mod 64 * 64 = n"
    using sextet_join [of n] assms(3) by simp
  ultimately show ?thesis
    by (simp only: b64_groups.simps b64_val_char sextet_range b64_val_pad option.case
      prod.case Let_def simp_thms if_True)
qed

lemma b64_group2:
  assumes "0 \<le> n" "n < 16777216" "n mod 4096 = 0"
  shows "b64_groups [b64_char (n div 262144), b64_char (n div 4096 mod 64), CHR ''='', CHR ''='']
         = Some [char_of (n div 65536)]"
proof -
  have "0 \<le> n div 262144" "n div 262144 < 64" using assms by auto
  moreover obtain k where k: "n = k * 4096" using assms(3) by (metis dvd_eq_mod_eq_0 dvdE mult.commute)
  then have "n = k * 64 * 64" by simp
  then have "n mod 64 = 0" "n div 64 = k * 64"
    by simp_all
  then have "n div 262144 * 262144 + n div 4096 mod 64 * 4096 = n"
    using sextet_join [of n] by simp
  ultimately show ?thesis
    by (simp only: b64_groups.simps b64_val_char sextet_range b64_val_pad option.case
      prod.case Let_def simp_thms if_True)
qed

lemma b64_groups_encode: "b64_groups (base64_EncodeToString bs) = Some bs"
proof (induction bs rule: base64_EncodeToString.induct)
  case (2 a)
  let ?n = "of_char a * 65536 :: int"
  note r = of_char_int_bounds [of a]
  have "?n = of_char a * 65536 + 0 * 256 + 0" by simp
  then have s: "?n div 65536 = of_char a"
    using sextets(3) [of "of_char a" 0 0] r by (simp only:)
  have "?n mod 4096 = of_char a * 16 * 4096 mod 4096" by (simp only: mult.assoc) simp
  then have "?n mod 4096 = 0" by (simp only: mod_mult_self2_is_0)
  moreover have "0 \<le> ?n" "?n < 16777216" using r by auto
  ultimately show ?case
    by (simp only: base64_EncodeToString.simps Let_def b64_group2 s char_of_char)
next
  case (3 a b)
  let ?n = "of_char a * 65536 + of_char b * 256 :: int"
  note r = of_char_int_bounds [of a] of_char_int_bounds [of b]
  have "?n = of_char a * 65536 + of_char b * 256 + 0" by simp
  then have s: "?n div 65536 = of_char a" "?n div 256 mod 256 = of_char b"
    using sextets(3,4) [of "of_char a" "of_char b" 0] r by (simp_all only:)
  have "?n = (of_char a * 1024 + of_char b * 4) * 64" by simp
  then have "?n mod 64 = 0" by (simp only: mod_mult_self2_is_0)
  moreover have "0 \<le> ?n" "?n < 16777216" using r by auto
  ultimately show ?case
    by (simp only: base64_EncodeToString.simps Let_def b64_group3 s char_of_char)
next
  case (4 a b c cs)
  let ?n = "of_char a * 65536 + of_char b * 256 + of_char c :: int"
  note r = of_char_int_bounds [of a] of_char_int_bounds [of b] of_char_int_bounds [of c]
  have "0 \<le> ?n" "?n < 16777216" using r by auto
  then show ?case
    using sextets(3-5) [OF r] "4.IH" [OF refl]
    by (simp only: base64_EncodeToString.simps Let_def b64_group4 option.map char_of_char)
qed (simp only: base64_EncodeToString.simps b64_groups.simps)

text \<open>No character of the encoding is a line end.\<close>

definition b64_clean :: "char \<Rightarrow> bool" where
  "b64_clean c \<longleftrightarrow> c \<noteq> CHR 0x0A \<and> c \<noteq> CHR 0x0D"

lemma b64_clean_char: "0 \<le> d \<Longrightarrow> d < 64 \<Longrightarrow> b64_clean (b64_char d)"
  using b64_char_no_eol [of d] by (simp add: b64_clean_def)

lemma b64_clean_pad: "b64_clean (CHR ''='')"
  by (simp add: b64_clean_def)

lemma b64_top_range:
  "0 \<le> n \<Longrightarrow> n < 16777216 \<Longrightarrow> 0 \<le> n div 262144 \<and> n div 262144 < (64::int)"
  by auto

lemma base64_clean: "list_all b64_clean (base64_EncodeToString bs)"
proof (induction bs rule: base64_EncodeToString.induct)
  case (2 a)
  have "0 \<le> (of_char a * 65536 :: int)" "(of_char a * 65536 :: int) < 16777216"
    using of_char_int_bounds [of a] by auto
  then show ?case
    by (simp only: base64_EncodeToString.simps Let_def list.pred_inject b64_clean_char b64_clean_pad
      b64_top_range sextet_range simp_thms)
next
  case (3 a b)
  let ?n = "of_char a * 65536 + of_char b * 256 :: int"
  have "0 \<le> ?n" "?n < 16777216" using of_char_int_bounds [of a] of_char_int_bounds [of b] by auto
  then show ?case
    by (simp only: base64_EncodeToString.simps Let_def list.pred_inject b64_clean_char b64_clean_pad
      b64_top_range sextet_range simp_thms)
next
  case (4 a b c cs)
  let ?n = "of_char a * 65536 + of_char b * 256 + of_char c :: int"
  have "0 \<le> ?n" "?n < 16777216"
    using of_char_int_bounds [of a] of_char_int_bounds [of b] of_char_int_bounds [of c] by auto
  then show ?case using "4.IH" [OF refl]
    by (simp only: base64_EncodeToString.simps Let_def list.pred_inject b64_clean_char b64_clean_pad
      b64_top_range sextet_range simp_thms)
qed simp

lemma base64_no_eol: "b64_no_eol (base64_EncodeToString bs) = base64_EncodeToString bs"
  using base64_clean [of bs] by (auto simp: b64_no_eol_def b64_clean_def list_all_iff filter_id_conv)

lemma base64_Decode_Encode [simp]: "base64_DecodeString (base64_EncodeToString bs) = Inr bs"
  by (simp add: base64_DecodeString_def base64_no_eol b64_groups_encode)

interpretation base64: codec base64_EncodeToString "\<lambda>s. b64_groups (b64_no_eol s)" "\<lambda>_. True"
  by unfold_locales (simp add: base64_no_eol b64_groups_encode)

end
