(* ===== verification/Core_Seal.thy ===== *)
theory Core_Seal
  imports Go_Runtime Go_Base64
begin

section \<open>core/seal.go and core/excluded.go\<close>

text \<open>
  Sealing of a price with a fresh AES-256 key that is itself sealed under the arbiter's RSA
  key, the payload inside, and the record of an excluded bid.
\<close>

definition HashAlgorithmSHA256 :: string where
  "HashAlgorithmSHA256 = ''SHA-256''"

record PricePayload =
  Price :: DollarsPerMille

text \<open>\<open>json.Marshal\<close> of a payload fails on the floats JSON cannot write.\<close>

definition Marshal_PricePayload :: "PricePayload \<Rightarrow> bytes result" where
  "Marshal_PricePayload p =
     bind_result (fmt_json_float (Price p)) (\<lambda>t. Inr (json_print (JObj [(''price'', JNum t)])))"

definition dec_PricePayload :: "PricePayload jdec" where
  "dec_PricePayload = dec_struct [(''price'', dec_field Price (\<lambda>v p. p\<lparr>Price := v\<rparr>) dec_float64)]"

definition f64_zero :: f64 where
  "f64_zero = Fin False 0 (- 1074)"

definition Unmarshal_PricePayload :: "bytes \<Rightarrow> PricePayload result" where
  "Unmarshal_PricePayload data = json_Unmarshal dec_PricePayload data \<lparr>Price = f64_zero\<rparr>"

definition ParsePublicKey :: "crypto \<Rightarrow> bytes \<Rightarrow> rsa_PublicKey result" where
  "ParsePublicKey C pemBytes =
     (if length pemBytes = 0 then Inl ErrNoKey
      else
        (case pem_Decode C pemBytes of
           None \<Rightarrow> Inl (Errorf ''parse RSA public key: no PEM block found'')
         | Some block \<Rightarrow>
             (case ParsePKIX C (pem_Bytes block) of
                Inl err \<Rightarrow> Inl (Wrapf ''parse PKIX RSA public key'' err)
              | Inr (PkixOther typ) \<Rightarrow>
                  Inl (Errorf (''parse PKIX RSA public key: wanted *rsa.PublicKey, got '' @ typ))
              | Inr (PkixRSA pub) \<Rightarrow> Inr pub)))"

text \<open>The entropy \<open>EncryptOAEP\<close> reads for its seed, the size of a SHA-256 digest.\<close>

definition rsa_EncryptOAEP :: "crypto \<Rightarrow> rsa_PublicKey \<Rightarrow> bytes \<Rightarrow> bytes result io" where
  "rsa_EncryptOAEP C pub msg =
     bind_io (rand_Read 32) (\<lambda>seed. lift_io (EncryptOAEP C pub seed msg))"

definition SealCPMDollars ::
  "crypto \<Rightarrow> rsa_PublicKey option \<Rightarrow> DollarsPerMille \<Rightarrow> EncryptedRevenue result io" where
  "SealCPMDollars C pub dpm =
     (case pub of
        None \<Rightarrow> lift_io (Inl ErrNoKey)
      | Some pub \<Rightarrow>
          bind_io (wrap_io ''marshal revenue payload'' (lift_io (Marshal_PricePayload \<lparr>Price = dpm\<rparr>))) (\<lambda>plaintext.
          bind_io (wrap_io ''generate AES key'' (rand_Read 32)) (\<lambda>aesKey.
          bind_io (wrap_io ''new AES cipher'' (lift_io (aes_NewCipher aesKey))) (\<lambda>block.
          bind_io (wrap_io ''new GCM'' (lift_io (cipher_NewGCM block))) (\<lambda>aesgcm.
          bind_io (wrap_io ''generate GCM nonce'' (rand_Read gcm_NonceSize)) (\<lambda>nonce.
          let ciphertext = GCM_Seal C aesgcm nonce plaintext in
          bind_io (wrap_io ''RSA-OAEP encrypt AES key'' (rsa_EncryptOAEP C pub aesKey)) (\<lambda>encryptedAESKey.
          lift_io (Inr \<lparr>AESKeyEncrypted = base64_EncodeToString encryptedAESKey,
                        EncryptedPayload = base64_EncodeToString ciphertext,
                        Nonce = base64_EncodeToString nonce,
                        HashAlgorithm = HashAlgorithmSHA256\<rparr>))))))))"

subsection \<open>core/excluded.go\<close>

record ExcludedBid =
  exBidID :: string
  exReason :: string

definition ExclusionReasonMalformedBidID :: string where
  "ExclusionReasonMalformedBidID = ''malformed bid id''"

subsection \<open>The payload's format\<close>

definition enc_PricePayload :: "PricePayload \<Rightarrow> json" where
  "enc_PricePayload p = JObj [(''price'', enc_float64 (Price p))]"

lemma simple_price: "simple_name ''price''"
  by code_simp

lemma Marshal_PricePayload_ok:
  assumes "float_ok (Price p)"
  shows "Marshal_PricePayload p = Inr (json_print (enc_PricePayload p))"
  using fmt_json_float_reads_back [of "Price p"] assms
  by (auto simp: Marshal_PricePayload_def enc_PricePayload_def enc_float64_def float_ok_def)

interpretation price_payload: json_codec enc_PricePayload dec_PricePayload "\<lambda>p. float_ok (Price p)" 1
proof unfold_locales
  fix p :: PricePayload and old assume ok: "float_ok (Price p)"
  have "dec_PricePayload (enc_PricePayload p) old = Inr (old\<lparr>Price := Price p\<rparr>)"
    by (simp add: dec_PricePayload_def enc_PricePayload_def dec_struct_def
      dec_members_field [OF simple_price] json_f64.field_enc ok)
  then show "dec_PricePayload (enc_PricePayload p) old = Inr p" by simp
  show "json_wf (enc_PricePayload p)"
    using json_f64.enc_wf [OF ok] wf_simple [OF simple_price] by (simp add: enc_PricePayload_def)
  show "json_depth (enc_PricePayload p) \<le> 1"
    using json_f64.enc_depth [OF ok] by (simp add: enc_PricePayload_def)
qed (simp add: enc_PricePayload_def)

lemma Unmarshal_Marshal_PricePayload:
  assumes "float_ok x"
  shows "Unmarshal_PricePayload (json_print (enc_PricePayload \<lparr>Price = x\<rparr>)) = Inr \<lparr>Price = x\<rparr>"
  unfolding Unmarshal_PricePayload_def
  by (rule price_payload.Unmarshal_Marshal) (use assms in \<open>simp_all add: max_depth_def\<close>)

end
