(* ===== verification/Api_Types.thy ===== *)
theory Api_Types
  imports Core_Seal
begin

section \<open>enclaveapi/types.go: the wire contract\<close>

text \<open>
  The records that cross the wire between host, enclave and validator, with the JSON
  encoders and decoders that their struct tags describe.  The types re-exported from
  openauction are records of the fields this repository uses; their JSON tags are not part
  of the repository, so the encoders and decoders of those types are parameters
  (\<open>wire_tags\<close>).  A slice is a list: the nil slices of the source only occur in
  fields tagged \<open>omitempty\<close>, which leave out nil and empty slices alike.
\<close>

subsection \<open>Types of openauction\<close>

type_synonym AttestationCOSE = bytes
type_synonym AttestationCOSEBase64 = string
type_synonym AttestationCOSEGzip = string

record PCRs =
  ImageFileHash :: string
  KernelHash :: string
  ApplicationHash :: string

record AttestationDoc =
  docPCRs :: PCRs
  Certificate :: string
  CABundle :: "string list"
  docTimestamp :: gotime

record KeyAttestationUserData =
  KeyAlgorithm :: string
  PublicKey :: string

record KeyWithAttestation =
  kwaPublicKey :: string
  kwaAttestation :: AttestationCOSEGzip
  kwaAuctionToken :: string

record KeyResponse =
  krKey :: KeyWithAttestation
  krType :: string

record wire_tags =
  enc_EncryptedBidPrice :: "EncryptedRevenue \<Rightarrow> json"
  dec_EncryptedBidPrice :: "EncryptedRevenue jdec"
  members_KeyUserData :: "KeyAttestationUserData \<Rightarrow> (string \<times> json) list"
  fields_KeyUserData :: "(string \<times> KeyAttestationUserData jdec) list"
  enc_KeyResponse :: "KeyResponse \<Rightarrow> json"

subsection \<open>Types of openarbiter\<close>

record ArbiterKeyAttestationUserData =
  akKey :: KeyAttestationUserData
  akAuctionToken :: string

record KeyAttestationDoc =
  kdDoc :: AttestationDoc
  kdUserData :: "ArbiterKeyAttestationUserData option"

record WireBid =
  wbID :: string
  wbSource :: string
  wbCleartextRevenue :: MicroDollars
  wbEncryptedCPMDollars :: "EncryptedRevenue option"

record EnclaveArbitrationRequest =
  reqType :: string
  reqRequestID :: string
  reqBids :: "WireBid list"
  reqTimestamp :: gotime

record ArbiterBidWithoutSource =
  wsID :: string
  wsRevenue :: MicroDollars

record ResolvedBid =
  rbID :: string
  rbSource :: string
  rbRevenue :: MicroDollars
  rbDecrypted :: bool

record EnclaveArbitrationResponse =
  respType :: string
  respSuccess :: bool
  respMessage :: string
  respAttestation :: AttestationCOSEBase64
  respExcludedBids :: "ExcludedBid list"
  respBids :: "ResolvedBid list"
  respProcessingTimeMS :: int64

record ArbitrationAttestationUserData =
  udRequestID :: string
  udBidHashes :: "string list"
  udBidHashNonce :: string
  udRequestHash :: string
  udRequestNonce :: string
  udWinner :: "ArbiterBidWithoutSource option"
  udExcludedBids :: "ExcludedBid list"
  udTimestamp :: gotime

record ArbitrationAttestationDoc =
  adDoc :: AttestationDoc
  adUserData :: "ArbitrationAttestationUserData option"

subsection \<open>Zero values\<close>

text \<open>\<open>time_zero\<close> is the zero \<open>time.Time\<close>, the first of January of the year 1.\<close>

definition time_zero :: gotime where
  "time_zero = \<lparr>t_sec = - 62135596800, t_ns = 0\<rparr>"

definition zero_EncryptedRevenue :: EncryptedRevenue where
  "zero_EncryptedRevenue =
     \<lparr>AESKeyEncrypted = [], EncryptedPayload = [], Nonce = [], HashAlgorithm = []\<rparr>"

definition zero_KeyUserData :: ArbiterKeyAttestationUserData where
  "zero_KeyUserData = \<lparr>akKey = \<lparr>KeyAlgorithm = [], PublicKey = []\<rparr>, akAuctionToken = []\<rparr>"

definition zero_WireBid :: WireBid where
  "zero_WireBid =
     \<lparr>wbID = [], wbSource = [], wbCleartextRevenue = 0, wbEncryptedCPMDollars = None\<rparr>"

definition zero_Request :: EnclaveArbitrationRequest where
  "zero_Request = \<lparr>reqType = [], reqRequestID = [], reqBids = [], reqTimestamp = time_zero\<rparr>"

definition zero_WithoutSource :: ArbiterBidWithoutSource where
  "zero_WithoutSource = \<lparr>wsID = [], wsRevenue = 0\<rparr>"

definition zero_ExcludedBid :: ExcludedBid where
  "zero_ExcludedBid = \<lparr>exBidID = [], exReason = []\<rparr>"

definition zero_ResolvedBid :: ResolvedBid where
  "zero_ResolvedBid = \<lparr>rbID = [], rbSource = [], rbRevenue = 0, rbDecrypted = False\<rparr>"

definition zero_Response :: EnclaveArbitrationResponse where
  "zero_Response =
     \<lparr>respType = [], respSuccess = False, respMessage = [], respAttestation = [],
      respExcludedBids = [], respBids = [], respProcessingTimeMS = 0\<rparr>"

definition zero_UserData :: ArbitrationAttestationUserData where
  "zero_UserData =
     \<lparr>udRequestID = [], udBidHashes = [], udBidHashNonce = [], udRequestHash = [],
      udRequestNonce = [], udWinner = None, udExcludedBids = [], udTimestamp = time_zero\<rparr>"

subsection \<open>Encoders\<close>

definition enc_WireBid :: "wire_tags \<Rightarrow> WireBid \<Rightarrow> json" where
  "enc_WireBid T b =
     JObj ([(''id'', enc_string (wbID b)), (''source'', enc_string (wbSource b)),
            (''cleartext_revenue_micros'', enc_int64 (wbCleartextRevenue b))]
           @ (case wbEncryptedCPMDollars b of None \<Rightarrow> []
              | Some er \<Rightarrow> [(''encrypted_cpm_dollars'', enc_EncryptedBidPrice T er)]))"

definition enc_Request :: "wire_tags \<Rightarrow> EnclaveArbitrationRequest \<Rightarrow> json" where
  "enc_Request T r =
     JObj [(''type'', enc_string (reqType r)), (''request_id'', enc_string (reqRequestID r)),
           (''bids'', JArr (map (enc_WireBid T) (reqBids r))), (''timestamp'', enc_time (reqTimestamp r))]"

definition enc_WithoutSource :: "ArbiterBidWithoutSource \<Rightarrow> json" where
  "enc_WithoutSource w =
     JObj [(''id'', enc_string (wsID w)), (''revenue_micros'', enc_int64 (wsRevenue w))]"

definition enc_ExcludedBid :: "ExcludedBid \<Rightarrow> json" where
  "enc_ExcludedBid e =
     JObj [(''bid_id'', enc_string (exBidID e)), (''reason'', enc_string (exReason e))]"

definition enc_ResolvedBid :: "ResolvedBid \<Rightarrow> json" where
  "enc_ResolvedBid r =
     JObj [(''id'', enc_string (rbID r)), (''source'', enc_string (rbSource r)),
           (''revenue_micros'', enc_int64 (rbRevenue r)), (''decrypted'', JBool (rbDecrypted r))]"

definition enc_Response :: "EnclaveArbitrationResponse \<Rightarrow> json" where
  "enc_Response r =
     JObj ([(''type'', enc_string (respType r)), (''success'', JBool (respSuccess r))]
       @ omitempty (respMessage r = []) ''message'' (enc_string (respMessage r))
       @ omitempty (respAttestation r = []) ''attestation_cose_base64'' (enc_string (respAttestation r))
       @ omitempty (respExcludedBids r = []) ''excluded_bids'' (JArr (map enc_ExcludedBid (respExcludedBids r)))
       @ omitempty (respBids r = []) ''bids'' (JArr (map enc_ResolvedBid (respBids r)))
       @ [(''processing_time_ms'', enc_int64 (respProcessingTimeMS r))])"

definition enc_UserData :: "ArbitrationAttestationUserData \<Rightarrow> json" where
  "enc_UserData u =
     JObj ([(''request_id'', enc_string (udRequestID u)),
            (''bid_hashes'', JArr (map enc_string (udBidHashes u))),
            (''bid_hash_nonce'', enc_string (udBidHashNonce u)),
            (''request_hash'', enc_string (udRequestHash u)),
            (''request_nonce'', enc_string (udRequestNonce u))]
       @ (case udWinner u of None \<Rightarrow> [] | Some w \<Rightarrow> [(''winner'', enc_WithoutSource w)])
       @ omitempty (udExcludedBids u = []) ''excluded_bids'' (JArr (map enc_ExcludedBid (udExcludedBids u)))
       @ [(''timestamp'', enc_time (udTimestamp u))])"

text \<open>\<open>json.Marshal\<close> of the user data fails when the timestamp's year has no four digits.\<close>

definition Marshal_UserData :: "ArbitrationAttestationUserData \<Rightarrow> bytes result" where
  "Marshal_UserData u =
     bind_result (time_text (udTimestamp u)) (\<lambda>_. Inr (json_print (enc_UserData u)))"

text \<open>The fields of an embedded struct are fields of the outer one, which go first.\<close>

definition enc_KeyUserData :: "wire_tags \<Rightarrow> ArbiterKeyAttestationUserData \<Rightarrow> json" where
  "enc_KeyUserData T u =
     JObj (filter (\<lambda>m. fst m \<noteq> ''auction_token'') (members_KeyUserData T (akKey u))
           @ [(''auction_token'', enc_string (akAuctionToken u))])"

subsection \<open>Decoders\<close>

definition dec_WireBid :: "wire_tags \<Rightarrow> WireBid jdec" where
  "dec_WireBid T = dec_struct
     [(''id'', dec_field wbID (\<lambda>v b. b\<lparr>wbID := v\<rparr>) dec_string),
      (''source'', dec_field wbSource (\<lambda>v b. b\<lparr>wbSource := v\<rparr>) dec_string),
      (''cleartext_revenue_micros'',
         dec_field wbCleartextRevenue (\<lambda>v b. b\<lparr>wbCleartextRevenue := v\<rparr>) dec_int64),
      (''encrypted_cpm_dollars'',
         dec_field wbEncryptedCPMDollars (\<lambda>v b. b\<lparr>wbEncryptedCPMDollars := v\<rparr>)
           (dec_ptr zero_EncryptedRevenue (dec_EncryptedBidPrice T)))]"

definition dec_Request :: "wire_tags \<Rightarrow> EnclaveArbitrationRequest jdec" where
  "dec_Request T = dec_struct
     [(''type'', dec_field reqType (\<lambda>v r. r\<lparr>reqType := v\<rparr>) dec_string),
      (''request_id'', dec_field reqRequestID (\<lambda>v r. r\<lparr>reqRequestID := v\<rparr>) dec_string),
      (''bids'', dec_field reqBids (\<lambda>v r. r\<lparr>reqBids := v\<rparr>) (dec_slice zero_WireBid (dec_WireBid T))),
      (''timestamp'', dec_field reqTimestamp (\<lambda>v r. r\<lparr>reqTimestamp := v\<rparr>) dec_time)]"

definition dec_WithoutSource :: "ArbiterBidWithoutSource jdec" where
  "dec_WithoutSource = dec_struct
     [(''id'', dec_field wsID (\<lambda>v w. w\<lparr>wsID := v\<rparr>) dec_string),
      (''revenue_micros'', dec_field wsRevenue (\<lambda>v w. w\<lparr>wsRevenue := v\<rparr>) dec_int64)]"

definition dec_ExcludedBid :: "ExcludedBid jdec" where
  "dec_ExcludedBid = dec_struct
     [(''bid_id'', dec_field exBidID (\<lambda>v e. e\<lparr>exBidID := v\<rparr>) dec_string),
      (''reason'', dec_field exReason (\<lambda>v e. e\<lparr>exReason := v\<rparr>) dec_string)]"

definition dec_ResolvedBid :: "ResolvedBid jdec" where
  "dec_ResolvedBid = dec_struct
     [(''id'', dec_field rbID (\<lambda>v r. r\<lparr>rbID := v\<rparr>) dec_string),
      (''source'', dec_field rbSource (\<lambda>v r. r\<lparr>rbSource := v\<rparr>) dec_string),
      (''revenue_micros'', dec_field rbRevenue (\<lambda>v r. r\<lparr>rbRevenue := v\<rparr>) dec_int64),
      (''decrypted'', dec_field rbDecrypted (\<lambda>v r. r\<lparr>rbDecrypted := v\<rparr>) dec_bool)]"

definition dec_Response :: "EnclaveArbitrationResponse jdec" where
  "dec_Response = dec_struct
     [(''type'', dec_field respType (\<lambda>v r. r\<lparr>respType := v\<rparr>) dec_string),
      (''success'', dec_field respSuccess (\<lambda>v r. r\<lparr>respSuccess := v\<rparr>) dec_bool),
      (''message'', dec_field respMessage (\<lambda>v r. r\<lparr>respMessage := v\<rparr>) dec_string),
      (''attestation_cose_base64'', dec_field respAttestation (\<lambda>v r. r\<lparr>respAttestation := v\<rparr>) dec_string),
      (''excluded_bids'', dec_field respExcludedBids (\<lambda>v r. r\<lparr>respExcludedBids := v\<rparr>)
         (dec_slice zero_ExcludedBid dec_ExcludedBid)),
      (''bids'', dec_field respBids (\<lambda>v r. r\<lparr>respBids := v\<rparr>) (dec_slice zero_ResolvedBid dec_ResolvedBid)),
      (''processing_time_ms'',
         dec_field respProcessingTimeMS (\<lambda>v r. r\<lparr>respProcessingTimeMS := v\<rparr>) dec_int64)]"

definition dec_UserData :: "ArbitrationAttestationUserData jdec" where
  "dec_UserData = dec_struct
     [(''request_id'', dec_field udRequestID (\<lambda>v u. u\<lparr>udRequestID := v\<rparr>) dec_string),
      (''bid_hashes'', dec_field udBidHashes (\<lambda>v u. u\<lparr>udBidHashes := v\<rparr>) (dec_slice [] dec_string)),
      (''bid_hash_nonce'', dec_field udBidHashNonce (\<lambda>v u. u\<lparr>udBidHashNonce := v\<rparr>) dec_string),
      (''request_hash'', dec_field udRequestHash (\<lambda>v u. u\<lparr>udRequestHash := v\<rparr>) dec_string),
      (''request_nonce'', dec_field udRequestNonce (\<lambda>v u. u\<lparr>udRequestNonce := v\<rparr>) dec_string),
      (''winner'', dec_field udWinner (\<lambda>v u. u\<lparr>udWinner := v\<rparr>)
         (dec_ptr zero_WithoutSource dec_WithoutSource)),
      (''excluded_bids'', dec_field udExcludedBids (\<lambda>v u. u\<lparr>udExcludedBids := v\<rparr>)
         (dec_slice zero_ExcludedBid dec_ExcludedBid)),
      (''timestamp'', dec_field udTimestamp (\<lambda>v u. u\<lparr>udTimestamp := v\<rparr>) dec_time)]"

definition dec_KeyUserData :: "wire_tags \<Rightarrow> ArbiterKeyAttestationUserData jdec" where
  "dec_KeyUserData T = dec_struct
     ((''auction_token'', dec_field akAuctionToken (\<lambda>v u. u\<lparr>akAuctionToken := v\<rparr>) dec_string)
      # map (\<lambda>(k, d). (k, dec_field akKey (\<lambda>v u. u\<lparr>akKey := v\<rparr>) d)) (fields_KeyUserData T))"

end
