(* ===== verification/Api_Codec.thy ===== *)
theory Api_Codec
  imports Api_Types
begin

section \<open>The wire formats read back\<close>

text \<open>
  For every type of the wire contract, what one side prints the other side reads.  A struct
  with an optional field (\<open>omitempty\<close>) reads back only into a target that was zero, which is
  how every caller decodes: the locale \<open>json_struct\<close> is that weaker contract, and the
  contract \<open>json_codec\<close> of the plain types gives it for every zero value.
\<close>

locale json_struct =
  fixes enc :: "'a \<Rightarrow> json" and dec :: "'a jdec" and good :: "'a \<Rightarrow> bool" and depth :: nat and zero :: 'a
  assumes dec_enc_zero: "good x \<Longrightarrow> dec (enc x) zero = Inr x"
    and enc_wf0: "good x \<Longrightarrow> json_wf (enc x)"
    and enc_depth0: "good x \<Longrightarrow> json_depth (enc x) \<le> depth"
    and enc_not_null0: "enc x \<noteq> JNull"
begin

lemma dec_ptr_zero: "good x \<Longrightarrow> dec_ptr zero dec (enc x) None = Inr (Some x)"
  by (simp add: dec_ptr_def dec_enc_zero enc_not_null0)

lemma dec_elems_zero: "list_all good xs \<Longrightarrow> dec_elems zero dec (map enc xs) [] = Inr xs"
  by (induction xs) (simp_all add: dec_enc_zero)

lemma dec_slice_zero: "list_all good xs \<Longrightarrow> dec_slice zero dec (JArr (map enc xs)) [] = Inr xs"
  by (simp add: dec_slice_def dec_elems_zero)

lemma slice_wf0: "list_all good xs \<Longrightarrow> json_wf (JArr (map enc xs))"
  by (auto simp: list_all_iff enc_wf0)

lemma slice_depth0: "list_all good xs \<Longrightarrow> json_depth (JArr (map enc xs)) \<le> Suc depth"
  by (auto simp: list_all_iff enc_depth0)

lemma Unmarshal_Marshal_zero:
  assumes "good x" and "depth \<le> max_depth"
  shows "json_Unmarshal dec (json_print (enc x)) zero = Inr x"
proof -
  have "json_depth (enc x) \<le> max_depth" using enc_depth0 [OF assms(1)] assms(2) by simp
  then show ?thesis
    using json_parse_print [OF enc_wf0 [OF assms(1)]] by (simp add: json_Unmarshal_def dec_enc_zero assms(1))
qed

lemma Marshal_inject_zero:
  assumes "good x" "good y" "depth \<le> max_depth" "json_print (enc x) = json_print (enc y)"
  shows "x = y"
  using Unmarshal_Marshal_zero [OF assms(1,3)] Unmarshal_Marshal_zero [OF assms(2,3)] assms(4)
  by (metis sum.inject(2))

end

sublocale json_codec \<subseteq> fresh: json_struct enc dec good depth zero for zero
  by unfold_locales (simp_all add: dec_enc enc_wf enc_depth enc_not_null)

lemma Unmarshal_nonempty: "json_Unmarshal dec s x = Inr y \<Longrightarrow> s \<noteq> []"
proof
  assume "json_Unmarshal dec s x = Inr y" and "s = []"
  moreover have "json_parse [] = None" by code_simp
  ultimately show False by (simp add: json_Unmarshal_def)
qed

subsection \<open>The fields' names\<close>

lemma wire_names [simp]:
  "simple_name ''id''" "simple_name ''source''" "simple_name ''cleartext_revenue_micros''"
  "simple_name ''encrypted_cpm_dollars''" "simple_name ''type''" "simple_name ''request_id''"
  "simple_name ''bids''" "simple_name ''timestamp''" "simple_name ''revenue_micros''"
  "simple_name ''bid_id''" "simple_name ''reason''" "simple_name ''decrypted''"
  "simple_name ''success''" "simple_name ''message''" "simple_name ''attestation_cose_base64''"
  "simple_name ''excluded_bids''" "simple_name ''processing_time_ms''" "simple_name ''bid_hashes''"
  "simple_name ''bid_hash_nonce''" "simple_name ''request_hash''" "simple_name ''request_nonce''"
  "simple_name ''winner''" "simple_name ''auction_token''"
  by code_simp+

lemmas codec_simps = dec_struct_def dec_members_field wf_simple omitempty_def
lemmas basic_fields = json_str.field_enc json_int64.field_enc json_bool.field_enc json_time.field_enc
lemmas basic_dec = json_str.dec_enc json_int64.dec_enc json_bool.dec_enc json_time.dec_enc
lemmas basic_wf = json_str.enc_wf json_int64.enc_wf json_time.enc_wf
lemmas basic_depth = json_str.enc_depth json_int64.enc_depth json_time.enc_depth

lemma wf_enc_string [simp]: "json_wf (enc_string s)"
  by (simp add: enc_string_def wf_json_quote)

lemma wf_enc_int64 [simp]: "json_wf (enc_int64 i)"
  by (simp add: json_int64.enc_wf)

lemma depth_basic [simp]:
  "json_depth (enc_string s) = 0" "json_depth (enc_int64 i) = 0" "json_depth (enc_time t) = 0"
  by (simp_all add: enc_string_def enc_int64_def enc_time_def)

subsection \<open>The structs of plain fields\<close>

definition good_WithoutSource :: "ArbiterBidWithoutSource \<Rightarrow> bool" where
  "good_WithoutSource w \<longleftrightarrow> ValidString (wsID w)"

interpretation without_source: json_codec enc_WithoutSource dec_WithoutSource good_WithoutSource 1
  by unfold_locales
    (simp_all add: enc_WithoutSource_def dec_WithoutSource_def good_WithoutSource_def codec_simps basic_fields)

definition good_ExcludedBid :: "ExcludedBid \<Rightarrow> bool" where
  "good_ExcludedBid e \<longleftrightarrow> ValidString (exBidID e) \<and> ValidString (exReason e)"

interpretation excluded_bid: json_codec enc_ExcludedBid dec_ExcludedBid good_ExcludedBid 1
  by unfold_locales
    (simp_all add: enc_ExcludedBid_def dec_ExcludedBid_def good_ExcludedBid_def codec_simps basic_fields)

definition good_ResolvedBid :: "ResolvedBid \<Rightarrow> bool" where
  "good_ResolvedBid r \<longleftrightarrow> ValidString (rbID r) \<and> ValidString (rbSource r)"

interpretation resolved_bid: json_codec enc_ResolvedBid dec_ResolvedBid good_ResolvedBid 1
  by unfold_locales
    (simp_all add: enc_ResolvedBid_def dec_ResolvedBid_def good_ResolvedBid_def codec_simps basic_fields)

subsection \<open>The structs with optional fields\<close>

text \<open>An optional slice reads back into an empty field whether or not it is left out.\<close>

lemma dec_members_append:
  "dec_members fs (xs @ ys) x = bind_result (dec_members fs xs x) (dec_members fs ys)"
proof (induction xs arbitrary: x)
  case (Cons kv xs)
  obtain k v where kv: "kv = (k, v)" by (cases kv)
  show ?case
  proof (cases "find_field fs (json_unquote k)")
    case None
    then show ?thesis using Cons.IH by (simp add: kv dec_members.simps(2))
  next
    case (Some d)
    then show ?thesis using Cons.IH by (cases "d v x") (simp_all add: kv dec_members.simps(2))
  qed
qed simp

definition good_UserData :: "ArbitrationAttestationUserData \<Rightarrow> bool" where
  "good_UserData u \<longleftrightarrow>
     ValidString (udRequestID u) \<and> list_all ValidString (udBidHashes u)
     \<and> ValidString (udBidHashNonce u) \<and> ValidString (udRequestHash u) \<and> ValidString (udRequestNonce u)
     \<and> (case udWinner u of None \<Rightarrow> True | Some w \<Rightarrow> good_WithoutSource w)
     \<and> list_all good_ExcludedBid (udExcludedBids u) \<and> time_ok (udTimestamp u)"

interpretation user_data: json_struct enc_UserData dec_UserData good_UserData 3 zero_UserData
proof unfold_locales
  fix u assume g: "good_UserData u"
  show "dec_UserData (enc_UserData u) zero_UserData = Inr u"
    using g
    by (cases "udWinner u"; cases "udExcludedBids u = []")
      (simp_all add: enc_UserData_def dec_UserData_def zero_UserData_def good_UserData_def codec_simps
        basic_dec dec_field_def json_str.dec_slice_enc without_source.dec_ptr_enc
        excluded_bid.dec_slice_enc)
  show "json_wf (enc_UserData u)"
    using g excluded_bid.slice_wf [of "udExcludedBids u"] json_str.slice_wf [of "udBidHashes u"]
    by (cases "udWinner u"; cases "udExcludedBids u = []")
      (simp_all add: enc_UserData_def good_UserData_def codec_simps basic_wf without_source.enc_wf)
  show "json_depth (enc_UserData u) \<le> 3"
    using g excluded_bid.slice_depth [of "udExcludedBids u"] json_str.slice_depth [of "udBidHashes u"]
      without_source.enc_depth
    by (cases "udWinner u"; cases "udExcludedBids u = []")
      (fastforce simp: enc_UserData_def good_UserData_def codec_simps)+
qed (simp add: enc_UserData_def)

definition good_Response :: "EnclaveArbitrationResponse \<Rightarrow> bool" where
  "good_Response r \<longleftrightarrow>
     ValidString (respType r) \<and> ValidString (respMessage r) \<and> ValidString (respAttestation r)
     \<and> list_all good_ExcludedBid (respExcludedBids r) \<and> list_all good_ResolvedBid (respBids r)"

interpretation response: json_struct enc_Response dec_Response good_Response 3 zero_Response
proof unfold_locales
  fix r assume g: "good_Response r"
  show "dec_Response (enc_Response r) zero_Response = Inr r"
    using g
    by (cases "respMessage r = []"; cases "respAttestation r = []"; cases "respExcludedBids r = []";
        cases "respBids r = []")
      (simp_all add: enc_Response_def dec_Response_def zero_Response_def good_Response_def codec_simps
        basic_dec dec_field_def excluded_bid.dec_slice_enc resolved_bid.dec_slice_enc)
  show "json_wf (enc_Response r)"
    using g excluded_bid.slice_wf [of "respExcludedBids r"] resolved_bid.slice_wf [of "respBids r"]
    by (cases "respMessage r = []"; cases "respAttestation r = []"; cases "respExcludedBids r = []";
        cases "respBids r = []")
      (simp_all add: enc_Response_def good_Response_def codec_simps)
  show "json_depth (enc_Response r) \<le> 3"
    using g excluded_bid.slice_depth [of "respExcludedBids r"] resolved_bid.slice_depth [of "respBids r"]
    by (simp add: enc_Response_def good_Response_def codec_simps)
qed (simp add: enc_Response_def)

subsection \<open>The types whose tags belong to openauction\<close>

definition good_Encrypted :: "EncryptedRevenue \<Rightarrow> bool" where
  "good_Encrypted er \<longleftrightarrow>
     ValidString (AESKeyEncrypted er) \<and> ValidString (EncryptedPayload er)
     \<and> ValidString (Nonce er) \<and> ValidString (HashAlgorithm er)"

definition good_KeyData :: "KeyAttestationUserData \<Rightarrow> bool" where
  "good_KeyData k \<longleftrightarrow> ValidString (KeyAlgorithm k) \<and> ValidString (PublicKey k)"

text \<open>One member of an embedded struct: a plain name among the fields, other than the token's.\<close>

definition member_ok :: "(string \<times> 'a jdec) list \<Rightarrow> string \<times> json \<Rightarrow> bool" where
  "member_ok fs m \<longleftrightarrow>
     simple_name (fst m) \<and> fst m \<noteq> ''auction_token'' \<and> map_of fs (fst m) \<noteq> None
     \<and> json_wf (snd m) \<and> json_depth (snd m) = 0"

text \<open>
  What the model asks of the parameters: \<open>encoding/json\<close> reads back a sealed price and the
  key data it printed.
\<close>

definition tags_ok :: "wire_tags \<Rightarrow> bool" where
  "tags_ok T \<longleftrightarrow>
     json_codec (enc_EncryptedBidPrice T) (dec_EncryptedBidPrice T) good_Encrypted 1
     \<and> (\<forall>k. good_KeyData k \<longrightarrow>
          list_all (member_ok (fields_KeyUserData T)) (members_KeyUserData T k)
          \<and> dec_members (fields_KeyUserData T) (members_KeyUserData T k) (akKey zero_KeyUserData) = Inr k)"

definition good_WireBid :: "WireBid \<Rightarrow> bool" where
  "good_WireBid b \<longleftrightarrow>
     ValidString (wbID b) \<and> ValidString (wbSource b)
     \<and> (case wbEncryptedCPMDollars b of None \<Rightarrow> True | Some er \<Rightarrow> good_Encrypted er)"

lemma wire_bid_struct:
  assumes "tags_ok T"
  shows "json_struct (enc_WireBid T) (dec_WireBid T) good_WireBid 2 zero_WireBid"
proof -
  have e: "json_codec (enc_EncryptedBidPrice T) (dec_EncryptedBidPrice T) good_Encrypted 1"
    using assms by (simp add: tags_ok_def)
  show ?thesis
  proof unfold_locales
    fix b assume g: "good_WireBid b"
    show "dec_WireBid T (enc_WireBid T b) zero_WireBid = Inr b"
      using g
      by (cases "wbEncryptedCPMDollars b")
        (simp_all add: enc_WireBid_def dec_WireBid_def zero_WireBid_def good_WireBid_def codec_simps
          basic_dec dec_field_def json_codec.dec_ptr_enc [OF e])
    show "json_wf (enc_WireBid T b)"
      using g
      by (cases "wbEncryptedCPMDollars b")
        (simp_all add: enc_WireBid_def good_WireBid_def codec_simps json_codec.enc_wf [OF e])
    show "json_depth (enc_WireBid T b) \<le> 2"
    proof (cases "wbEncryptedCPMDollars b")
      case None
      then show ?thesis by (simp add: enc_WireBid_def)
    next
      case (Some er)
      then have "json_depth (enc_EncryptedBidPrice T er) \<le> 1"
        using g json_codec.enc_depth [OF e] by (simp add: good_WireBid_def)
      then show ?thesis by (simp add: enc_WireBid_def Some)
    qed
  qed (simp add: enc_WireBid_def)
qed

definition good_Request :: "EnclaveArbitrationRequest \<Rightarrow> bool" where
  "good_Request r \<longleftrightarrow>
     ValidString (reqType r) \<and> ValidString (reqRequestID r) \<and> list_all good_WireBid (reqBids r)
     \<and> time_ok (reqTimestamp r)"

lemma request_struct:
  assumes "tags_ok T"
  shows "json_struct (enc_Request T) (dec_Request T) good_Request 4 zero_Request"
proof -
  note b = wire_bid_struct [OF assms]
  show ?thesis
  proof unfold_locales
    fix r assume g: "good_Request r"
    show "dec_Request T (enc_Request T r) zero_Request = Inr r"
      using g
      by (simp add: enc_Request_def dec_Request_def zero_Request_def good_Request_def codec_simps
          basic_dec dec_field_def json_struct.dec_slice_zero [OF b])
    show "json_wf (enc_Request T r)"
      using g json_struct.slice_wf0 [OF b, of "reqBids r"]
      by (simp add: enc_Request_def good_Request_def codec_simps basic_wf)
    show "json_depth (enc_Request T r) \<le> 4"
      using g json_struct.slice_depth0 [OF b, of "reqBids r"]
      by (simp add: enc_Request_def good_Request_def)
  qed (simp add: enc_Request_def)
qed

text \<open>The fields of an embedded struct decode as they do in the struct itself.\<close>

definition embed_fields :: "(string \<times> KeyAttestationUserData jdec) list \<Rightarrow> (string \<times> ArbiterKeyAttestationUserData jdec) list" where
  "embed_fields fs =
     (''auction_token'', dec_field akAuctionToken (\<lambda>v u. u\<lparr>akAuctionToken := v\<rparr>) dec_string)
     # map (\<lambda>(k, d). (k, dec_field akKey (\<lambda>v u. u\<lparr>akKey := v\<rparr>) d)) fs"

lemma map_of_embed:
  "k \<noteq> ''auction_token'' \<Longrightarrow>
     map_of (embed_fields fs) k = map_option (dec_field akKey (\<lambda>v u. u\<lparr>akKey := v\<rparr>)) (map_of fs k)"
  by (simp add: embed_fields_def map_of_map)

lemma dec_members_embed:
  "list_all (member_ok fs) ms \<Longrightarrow>
     dec_members fs ms k = Inr k' \<Longrightarrow>
     dec_members (embed_fields fs) ms \<lparr>akKey = k, akAuctionToken = t\<rparr> = Inr \<lparr>akKey = k', akAuctionToken = t\<rparr>"
proof (induction ms arbitrary: k)
  case (Cons m ms)
  obtain n v where m: "m = (n, v)" by (cases m)
  obtain d where d: "map_of fs n = Some d" and n: "simple_name n" "n \<noteq> ''auction_token''"
    using Cons.prems(1) by (auto simp: m member_ok_def)
  obtain k1 where k1: "d v k = Inr k1" "dec_members fs ms k1 = Inr k'"
    using Cons.prems(2) by (auto simp: m dec_members_field [OF n(1) d] result_simps)
  have "map_of (embed_fields fs) n = Some (dec_field akKey (\<lambda>v u. u\<lparr>akKey := v\<rparr>) d)"
    by (simp add: map_of_embed n(2) d)
  then show ?case
    using Cons.IH [OF _ k1(2)] Cons.prems(1) k1(1)
    by (simp add: m dec_members_field [OF n(1)] dec_field_def)
qed simp

definition good_KeyUserData :: "ArbiterKeyAttestationUserData \<Rightarrow> bool" where
  "good_KeyUserData u \<longleftrightarrow> good_KeyData (akKey u) \<and> ValidString (akAuctionToken u)"

lemma key_user_data_struct:
  assumes "tags_ok T"
  shows "json_struct (enc_KeyUserData T) (dec_KeyUserData T) good_KeyUserData 1 zero_KeyUserData"
proof unfold_locales
  fix u assume g: "good_KeyUserData u"
  let ?ms = "members_KeyUserData T (akKey u)"
  have l: "list_all (member_ok (fields_KeyUserData T)) ?ms"
    and d: "dec_members (fields_KeyUserData T) ?ms (akKey zero_KeyUserData) = Inr (akKey u)"
    using assms g by (auto simp: tags_ok_def good_KeyUserData_def)
  have f: "filter (\<lambda>m. fst m \<noteq> ''auction_token'') ?ms = ?ms"
    using l by (intro filter_True) (auto simp: list_all_iff member_ok_def)
  have z: "zero_KeyUserData = \<lparr>akKey = akKey zero_KeyUserData, akAuctionToken = []\<rparr>"
    by (simp add: zero_KeyUserData_def)
  have "dec_members (embed_fields (fields_KeyUserData T)) (?ms @ [(''auction_token'', enc_string (akAuctionToken u))])
          zero_KeyUserData = Inr u"
    using dec_members_embed [OF l d, of "[]"] g
    by (simp add: dec_members_append dec_members_field [of "''auction_token''"] embed_fields_def
      json_str.field_enc good_KeyUserData_def z [symmetric])
  then show "dec_KeyUserData T (enc_KeyUserData T u) zero_KeyUserData = Inr u"
    by (simp add: dec_KeyUserData_def enc_KeyUserData_def f dec_struct_def embed_fields_def)
  show "json_wf (enc_KeyUserData T u)"
    using l by (auto simp: enc_KeyUserData_def f list_all_iff member_ok_def wf_simple)
  have "Max (insert 0 ((\<lambda>(k, v). json_depth v) ` set ?ms)) = (0::nat)"
    using l by (intro Max_eqI) (auto simp: list_all_iff member_ok_def)
  then show "json_depth (enc_KeyUserData T u) \<le> 1" by (simp add: enc_KeyUserData_def f)
qed (simp add: enc_KeyUserData_def)

text \<open>An instance of the parameters for the concrete examples.\<close>

definition ex_tags :: wire_tags where
  "ex_tags =
     \<lparr>enc_EncryptedBidPrice = (\<lambda>er. JObj
        [(''aes_key'', enc_string (AESKeyEncrypted er)), (''payload'', enc_string (EncryptedPayload er)),
         (''nonce'', enc_string (Nonce er)), (''hash'', enc_string (HashAlgorithm er))]),
      dec_EncryptedBidPrice = dec_struct
        [(''aes_key'', dec_field AESKeyEncrypted (\<lambda>v er. er\<lparr>AESKeyEncrypted := v\<rparr>) dec_string),
         (''payload'', dec_field EncryptedPayload (\<lambda>v er. er\<lparr>EncryptedPayload := v\<rparr>) dec_string),
         (''nonce'', dec_field Nonce (\<lambda>v er. er\<lparr>Nonce := v\<rparr>) dec_string),
         (''hash'', dec_field HashAlgorithm (\<lambda>v er. er\<lparr>HashAlgorithm := v\<rparr>) dec_string)],
      members_KeyUserData = (\<lambda>k.
        [(''key_algorithm'', enc_string (KeyAlgorithm k)), (''public_key'', enc_string (PublicKey k))]),
      fields_KeyUserData =
        [(''key_algorithm'', dec_field KeyAlgorithm (\<lambda>v k. k\<lparr>KeyAlgorithm := v\<rparr>) dec_string),
         (''public_key'', dec_field PublicKey (\<lambda>v k. k\<lparr>PublicKey := v\<rparr>) dec_string)],
      enc_KeyResponse = (\<lambda>r. JObj [(''type'', enc_string (krType r))])\<rparr>"

lemma ex_names:
  "simple_name ''aes_key''" "simple_name ''payload''" "simple_name ''nonce''" "simple_name ''hash''"
  "simple_name ''key_algorithm''" "simple_name ''public_key''"
  by code_simp+

lemma ex_tags_ok: "tags_ok ex_tags"
  unfolding tags_ok_def
proof (intro conjI allI impI)
  show "json_codec (enc_EncryptedBidPrice ex_tags) (dec_EncryptedBidPrice ex_tags) good_Encrypted 1"
    by unfold_locales
      (simp_all add: ex_tags_def good_Encrypted_def codec_simps ex_names basic_fields)
qed (simp_all add: ex_tags_def member_ok_def ex_names good_KeyData_def codec_simps basic_dec
      dec_field_def zero_KeyUserData_def)

subsection \<open>Properties of the wire formats\<close>

text \<open>
  C30: the request the host prints is the request the enclave reads, on every request whose strings
  are valid UTF-8 and whose timestamp has a year of four digits: sealed prices, absent ones and
  the order of the bids included.
\<close>

theorem request_roundtrip:
  assumes "tags_ok T" and "good_Request r"
  shows "json_Unmarshal (dec_Request T) (json_print (enc_Request T r)) zero_Request = Inr r"
  by (rule json_struct.Unmarshal_Marshal_zero [OF request_struct [OF assms(1)] assms(2)])
    (simp add: max_depth_def)

theorem request_roundtrip_witness:
  "json_Unmarshal (dec_Request ex_tags)
     (json_print (enc_Request ex_tags
       \<lparr>reqType = ''arbitration_request'', reqRequestID = ''req-1'',
        reqBids = [\<lparr>wbID = ''x'', wbSource = ''a'', wbCleartextRevenue = - 5, wbEncryptedCPMDollars = None\<rparr>],
        reqTimestamp = time_zero\<rparr>)) zero_Request
   = Inr \<lparr>reqType = ''arbitration_request'', reqRequestID = ''req-1'',
        reqBids = [\<lparr>wbID = ''x'', wbSource = ''a'', wbCleartextRevenue = - 5, wbEncryptedCPMDollars = None\<rparr>],
        reqTimestamp = time_zero\<rparr>"
  by (rule request_roundtrip [OF ex_tags_ok]) code_simp

text \<open>
  C29: the user data that the enclave attests is the user data that the validator reads: winner and
  exclusions, absent or present, and the bid hashes in order.
\<close>

theorem user_data_roundtrip:
  assumes "good_UserData u"
  shows "\<exists>s. Marshal_UserData u = Inr s \<and> json_Unmarshal dec_UserData s zero_UserData = Inr u"
proof -
  have "is_ok (time_text (udTimestamp u))"
    using assms by (simp add: good_UserData_def time_ok_def)
  then have "Marshal_UserData u = Inr (json_print (enc_UserData u))"
    by (auto simp: Marshal_UserData_def is_ok_iff)
  then show ?thesis
    using user_data.Unmarshal_Marshal_zero [OF assms] by (simp add: max_depth_def)
qed

theorem user_data_roundtrip_witness:
  "\<exists>s. Marshal_UserData (zero_UserData\<lparr>udWinner := Some \<lparr>wsID = ''w'', wsRevenue = 7\<rparr>\<rparr>) = Inr s
     \<and> json_Unmarshal dec_UserData s zero_UserData
       = Inr (zero_UserData\<lparr>udWinner := Some \<lparr>wsID = ''w'', wsRevenue = 7\<rparr>\<rparr>)"
  by (rule user_data_roundtrip) code_simp

text \<open>
  The response the enclave prints is the response the host reads, whichever of its optional
  fields are empty.
\<close>

lemma response_roundtrip:
  assumes "good_Response r"
  shows "json_Unmarshal dec_Response (json_print (enc_Response r)) zero_Response = Inr r"
  by (rule response.Unmarshal_Marshal_zero [OF assms]) (simp add: max_depth_def)

end
