(* ===== verification/Go_Libs.thy ===== *)
theory Go_Libs
  imports Api_Codec
begin

section \<open>Panics, and the packages uuid and openauction\<close>

text \<open>
  A call that may panic: \<open>None\<close> is the panic, otherwise it returns as any fallible call.
  The changes it made to the world before the panic stay.
\<close>

type_synonym 'a pio = "'a result option io"

definition bind_pio :: "'a pio \<Rightarrow> ('a \<Rightarrow> 'b pio) \<Rightarrow> 'b pio" where
  "bind_pio m f w =
     (case m w of
        (None, w1) \<Rightarrow> (None, w1)
      | (Some (Inl e), w1) \<Rightarrow> (Some (Inl e), w1)
      | (Some (Inr x), w1) \<Rightarrow> f x w1)"

definition wrap_pio :: "string \<Rightarrow> 'a pio \<Rightarrow> 'a pio" where
  "wrap_pio s m w = (case m w of (r, w1) \<Rightarrow> (map_option (wrap_err s) r, w1))"

definition no_panic :: "'a result io \<Rightarrow> 'a pio" where
  "no_panic m w = (case m w of (r, w1) \<Rightarrow> (Some r, w1))"

definition lift_pio :: "'a result option \<Rightarrow> 'a pio" where
  "lift_pio r w = (r, w)"

lemma bind_pio_Inr_iff [result_simps]:
  "bind_pio m f w = (Some (Inr y), w2) \<longleftrightarrow> (\<exists>x w1. m w = (Some (Inr x), w1) \<and> f x w1 = (Some (Inr y), w2))"
  by (auto simp: bind_pio_def split: prod.splits option.splits sum.splits)

lemma bind_pio_None_iff [result_simps]:
  "bind_pio m f w = (None, w2) \<longleftrightarrow>
     m w = (None, w2) \<or> (\<exists>x w1. m w = (Some (Inr x), w1) \<and> f x w1 = (None, w2))"
  by (auto simp: bind_pio_def split: prod.splits option.splits sum.splits)

lemma wrap_pio_Inr_iff [result_simps]:
  "wrap_pio s m w = (Some (Inr y), w1) \<longleftrightarrow> m w = (Some (Inr y), w1)"
  by (cases "m w") (auto simp: wrap_pio_def result_simps)

lemma wrap_pio_None_iff [result_simps]: "wrap_pio s m w = (None, w1) \<longleftrightarrow> m w = (None, w1)"
  by (cases "m w") (auto simp: wrap_pio_def)

lemma no_panic_Inr_iff [result_simps]: "no_panic m w = (Some (Inr y), w1) \<longleftrightarrow> m w = (Inr y, w1)"
  by (cases "m w") (auto simp: no_panic_def)

lemma no_panic_None_iff [result_simps]: "no_panic m w = (None, w1) \<longleftrightarrow> False"
  by (cases "m w") (auto simp: no_panic_def)

lemma lift_pio_Inr_iff [result_simps]: "lift_pio r w = (Some (Inr y), w1) \<longleftrightarrow> r = Some (Inr y) \<and> w1 = w"
  by (auto simp: lift_pio_def)

lemma lift_pio_None_iff [result_simps]: "lift_pio r w = (None, w1) \<longleftrightarrow> r = None \<and> w1 = w"
  by (auto simp: lift_pio_def)

subsection \<open>ASCII text is valid UTF-8\<close>

lemma ValidString_ascii: "list_all (\<lambda>c. (of_char c :: int) < 128) s \<Longrightarrow> ValidString s"
proof (induction s)
  case Nil
  show ?case by (simp add: ValidString_def runes.simps)
next
  case (Cons c s)
  then have "DecodeRune (c # s) = (of_char c, 1)" and "(of_char c :: int) < 128" by simp_all
  then have "runes (c # s) = (of_char c, [c]) # runes s" by (subst runes.simps) simp
  then show ?case using Cons \<open>(of_char c :: int) < 128\<close> by (simp add: ValidString_def RuneError_def)
qed

lemma ValidString_hex: "ValidString (hex_EncodeToString bs)"
proof (rule ValidString_ascii)
  show "list_all (\<lambda>c. (of_char c :: int) < 128) (hex_EncodeToString bs)"
    using hex_set [of bs] by (auto simp: list_all_iff)
qed

subsection \<open>github.com/google/uuid\<close>

text \<open>\<open>NewString\<close> formats sixteen random bytes and panics when there are none.\<close>

record uuid_pkg =
  uuid_Parse :: "string \<Rightarrow> uuid result"
  uuid_String :: "uuid \<Rightarrow> string"
  uuid_FromRandom :: "bytes \<Rightarrow> uuid"

definition uuid_NewString :: "uuid_pkg \<Rightarrow> string pio" where
  "uuid_NewString U w =
     (case rand_Read 16 w of
        (Inl _, w1) \<Rightarrow> (None, w1)
      | (Inr b, w1) \<Rightarrow> (Some (Inr (uuid_String U (uuid_FromRandom U b))), w1))"

text \<open>\<open>Parse\<close> accepts what \<open>String\<close> prints, which is ASCII text.\<close>

definition uuid_ok :: "uuid_pkg \<Rightarrow> bool" where
  "uuid_ok U \<longleftrightarrow> (\<forall>u. uuid_Parse U (uuid_String U u) = Inr u \<and> ValidString (uuid_String U u))"

lemma uuid_okD: "uuid_ok U \<Longrightarrow> uuid_Parse U (uuid_String U u) = Inr u"
  "uuid_ok U \<Longrightarrow> ValidString (uuid_String U u)"
  by (simp_all add: uuid_ok_def)

lemma uuid_String_inj: "uuid_ok U \<Longrightarrow> uuid_String U u = uuid_String U v \<longleftrightarrow> u = v"
  by (metis sum.inject(2) uuid_okD(1))

subsection \<open>The attestation envelope of openauction\<close>

text \<open>
  The methods of the three encodings of a COSE envelope, and the parser that takes the
  attestation document and the bytes of its user data out of one.
\<close>

record cose_pkg =
  EncodeBase64 :: "AttestationCOSE \<Rightarrow> AttestationCOSEBase64"
  Decode_cose :: "AttestationCOSEBase64 \<Rightarrow> AttestationCOSE result"
  CompressGzip :: "AttestationCOSE \<Rightarrow> AttestationCOSEGzip result"
  Base64_CompressGzip :: "AttestationCOSEBase64 \<Rightarrow> AttestationCOSEGzip result"
  Decompress :: "AttestationCOSEGzip \<Rightarrow> AttestationCOSE result"
  ParseAttestationDoc :: "AttestationCOSE \<Rightarrow> (AttestationDoc \<times> bytes) result"

definition cose_ok :: "cose_pkg \<Rightarrow> bool" where
  "cose_ok K \<longleftrightarrow>
     (\<forall>b. Decode_cose K (EncodeBase64 K b) = Inr b)
     \<and> (\<forall>b g. CompressGzip K b = Inr g \<longrightarrow> Decompress K g = Inr b)
     \<and> (\<forall>b g. Base64_CompressGzip K (EncodeBase64 K b) = Inr g \<longrightarrow> Decompress K g = Inr b)"

lemma cose_okD:
  "cose_ok K \<Longrightarrow> Decode_cose K (EncodeBase64 K b) = Inr b"
  "cose_ok K \<Longrightarrow> CompressGzip K b = Inr g \<Longrightarrow> Decompress K g = Inr b"
  "cose_ok K \<Longrightarrow> Base64_CompressGzip K (EncodeBase64 K b) = Inr g \<Longrightarrow> Decompress K g = Inr b"
  by (simp_all add: cose_ok_def)

subsection \<open>The Nitro security module\<close>

text \<open>
  \<open>EnclaveAttester\<close> is its one method \<open>Attest\<close>; the code fills two fields of the options.
\<close>

record AttestationOptions =
  optUserData :: bytes
  optNonce :: bytes

type_synonym EnclaveAttester = "AttestationOptions \<Rightarrow> bytes result"

text \<open>An attester whose envelope carries the user data it was given, and one that fails.\<close>

definition attests :: "cose_pkg \<Rightarrow> EnclaveAttester \<Rightarrow> AttestationDoc \<Rightarrow> bool" where
  "attests K att doc \<longleftrightarrow>
     (\<forall>opts cose. att opts = Inr cose \<longrightarrow> ParseAttestationDoc K cose = Inr (doc, optUserData opts))"

lemma attestsD:
  "attests K att doc \<Longrightarrow> att opts = Inr cose \<Longrightarrow> ParseAttestationDoc K cose = Inr (doc, optUserData opts)"
  by (simp add: attests_def)

subsection \<open>Instances for the concrete examples\<close>

text \<open>A uuid prints as its number; the envelope is the user data itself, and no encoding changes it.\<close>

definition ex_uuid :: uuid_pkg where
  "ex_uuid =
     \<lparr>uuid_Parse = (\<lambda>s. if s \<noteq> [] \<and> list_all is_digit s then Inr (word_of_int (dec_val 0 s))
                         else Inl (LibError ''invalid UUID'')),
      uuid_String = (\<lambda>u. dec_digits (uint u)), uuid_FromRandom = (\<lambda>b. of_nat (length b))\<rparr>"

definition ex_doc :: AttestationDoc where
  "ex_doc = \<lparr>docPCRs = \<lparr>ImageFileHash = ''p0'', KernelHash = ''p1'', ApplicationHash = ''p2''\<rparr>,
             Certificate = ''cert'', CABundle = [''ca''], docTimestamp = \<lparr>t_sec = 1700000000, t_ns = 0\<rparr>\<rparr>"

definition ex_cose :: cose_pkg where
  "ex_cose = \<lparr>EncodeBase64 = (\<lambda>b. b), Decode_cose = Inr, CompressGzip = Inr, Base64_CompressGzip = Inr,
              Decompress = Inr, ParseAttestationDoc = (\<lambda>b. Inr (ex_doc, b))\<rparr>"

definition ex_attester :: EnclaveAttester where
  "ex_attester opts = Inr (optUserData opts)"

lemma ex_uuid_ok: "uuid_ok ex_uuid"
proof -
  have "list_all is_digit (dec_digits (uint u))" for u :: uuid
    using dec_digits_all [of "uint u"] by simp
  moreover have "ValidString (dec_digits (uint u))" for u :: uuid
    by (rule ValidString_ascii) (use dec_digits_set [of "uint u"] in \<open>auto simp: list_all_iff\<close>)
  ultimately show ?thesis
    by (simp add: uuid_ok_def ex_uuid_def dec_digits_nonempty dec_val_digits)
qed

lemma ex_cose_ok: "cose_ok ex_cose"
  by (simp add: cose_ok_def ex_cose_def)

lemma ex_attests: "attests ex_cose ex_attester ex_doc"
  by (simp add: attests_def ex_cose_def ex_attester_def)

end
