(* ===== verification/Go_Sha256.thy ===== *)
theory Go_Sha256
  imports Prelude
begin

section \<open>crypto/sha256\<close>

text \<open>
  SHA-256 as FIPS 180-4 defines it and Go's \<open>sha256.Sum256\<close> computes it: the bid hashes
  and the request hash of an attestation are its digests.
\<close>

unbundle bit_operations_syntax

type_synonym u32 = "32 word"

definition rotr :: "nat \<Rightarrow> u32 \<Rightarrow> u32" where
  "rotr n w = drop_bit n w OR push_bit (32 - n) w"

text \<open>
  The constants are the first 32 bits of the fractional parts of the cube roots of the first
  64 primes, and of the square roots of the first 8.  \<open>iroot\<close> finds the integer part of
  a root one bit at a time.
\<close>

fun iroot :: "nat \<Rightarrow> int \<Rightarrow> int list \<Rightarrow> int \<Rightarrow> int" where
  "iroot k n [] r = r"
| "iroot k n (b # bs) r = iroot k n bs (if (r + b) ^ k \<le> n then r + b else r)"

definition root_bits :: "nat \<Rightarrow> int \<Rightarrow> u32" where
  "root_bits k p =
     word_of_int (iroot k (p * 2 ^ (32 * k)) (map (\<lambda>i. 2 ^ (36 - i)) [0..<37]) 0)"

definition sha_primes :: "int list" where
  "sha_primes =
     filter (\<lambda>p. list_all (\<lambda>d. p mod d \<noteq> 0 \<or> d = p) (map int [2..<312])) (map int [2..<312])"

definition sha_K :: "u32 list" where
  "sha_K = map (root_bits 3) sha_primes"

definition sha_H0 :: "u32 list" where
  "sha_H0 = map (root_bits 2) [2, 3, 5, 7, 11, 13, 17, 19]"

definition small_s0 :: "u32 \<Rightarrow> u32" where
  "small_s0 x = rotr 7 x XOR rotr 18 x XOR drop_bit 3 x"

definition small_s1 :: "u32 \<Rightarrow> u32" where
  "small_s1 x = rotr 17 x XOR rotr 19 x XOR drop_bit 10 x"

definition big_s0 :: "u32 \<Rightarrow> u32" where
  "big_s0 x = rotr 2 x XOR rotr 13 x XOR rotr 22 x"

definition big_s1 :: "u32 \<Rightarrow> u32" where
  "big_s1 x = rotr 6 x XOR rotr 11 x XOR rotr 25 x"

text \<open>The message schedule, newest word first: each step adds one word.\<close>

fun sha_sched :: "nat \<Rightarrow> u32 list \<Rightarrow> u32 list" where
  "sha_sched 0 ws = ws"
| "sha_sched (Suc n) ws =
     sha_sched n ((small_s1 (ws ! 1) + ws ! 6 + small_s0 (ws ! 14) + ws ! 15) # ws)"

fun sha_round :: "u32 list \<Rightarrow> u32 \<times> u32 \<Rightarrow> u32 list" where
  "sha_round [a, b, c, d, e, f, g, h] (k, w) =
     (let t1 = h + big_s1 e + ((e AND f) XOR (NOT e AND g)) + k + w;
          t2 = big_s0 a + ((a AND b) XOR (a AND c) XOR (b AND c))
      in [t1 + t2, a, b, c, d + t1, e, f, g])"
| "sha_round hs kw = hs"

fun be32 :: "bytes \<Rightarrow> u32 list" where
  "be32 (a # b # c # d # r) =
     word_of_int (((of_char a * 256 + of_char b) * 256 + of_char c) * 256 + of_char d) # be32 r"
| "be32 _ = []"

definition sha_block :: "u32 list \<Rightarrow> bytes \<Rightarrow> u32 list" where
  "sha_block hs blk =
     map2 (+) hs (foldl sha_round hs (zip sha_K (rev (sha_sched 48 (rev (be32 blk))))))"

function sha_blocks :: "u32 list \<Rightarrow> bytes \<Rightarrow> u32 list" where
  "sha_blocks hs m = (if length m < 64 then hs else sha_blocks (sha_block hs (take 64 m)) (drop 64 m))"
  by pat_completeness auto
termination
  by (relation "measure (\<lambda>(hs, m). length m)") auto

declare sha_blocks.simps [simp del]

text \<open>\<open>n\<close> bytes of a number, most significant first.\<close>

fun be_bytes :: "nat \<Rightarrow> int \<Rightarrow> bytes" where
  "be_bytes 0 x = []"
| "be_bytes (Suc n) x = be_bytes n (x div 256) @ [char_of (x mod 256)]"

text \<open>The padding: a one bit, zeros up to 56 bytes modulo 64, the length in bits.\<close>

definition sha_pad :: "bytes \<Rightarrow> bytes" where
  "sha_pad m =
     m @ CHR 0x80 # replicate ((119 - length m mod 64) mod 64) CHR 0x00
       @ be_bytes 8 (8 * int (length m))"

definition sha256_Sum256 :: "bytes \<Rightarrow> bytes" where
  "sha256_Sum256 m = concat (map (\<lambda>w. be_bytes 4 (uint w)) (sha_blocks sha_H0 (sha_pad m)))"

subsection \<open>The length of a digest\<close>

lemma length_sha_round: "length (sha_round hs kw) = length hs"
  by (induction hs kw rule: sha_round.induct) (auto simp: Let_def)

lemma length_foldl_sha_round: "length (foldl sha_round hs kws) = length hs"
  by (induction kws arbitrary: hs) (auto simp: length_sha_round)

lemma length_sha_block: "length (sha_block hs blk) = length hs"
  by (simp add: sha_block_def length_foldl_sha_round)

lemma length_sha_blocks: "length (sha_blocks hs m) = length hs"
proof (induction hs m rule: sha_blocks.induct)
  case (1 hs m)
  then show ?case by (subst sha_blocks.simps) (auto simp: length_sha_block)
qed

lemma length_be_bytes [simp]: "length (be_bytes n x) = n"
  by (induction n arbitrary: x) auto

lemma length_sha256 [simp]: "length (sha256_Sum256 m) = 32"
proof -
  have "length (concat (map (\<lambda>w. be_bytes 4 (uint w)) ws)) = 4 * length ws" for ws :: "u32 list"
    by (induction ws) auto
  then show ?thesis by (simp add: sha256_Sum256_def length_sha_blocks sha_H0_def)
qed

text \<open>Two messages that collide: the one way two hashes can agree on different inputs.\<close>

definition sha256_collision :: "bytes \<Rightarrow> bytes \<Rightarrow> bool" where
  "sha256_collision x y \<longleftrightarrow> x \<noteq> y \<and> sha256_Sum256 x = sha256_Sum256 y"

end
