(* ===== verification/Core_Hash.thy ===== *)
theory Core_Hash
  imports Go_Strconv Go_Sha256 Core_Units
begin

section \<open>core/hash.go: the hashes an attestation binds\<close>

text \<open>
  \<open>ComputeBidHash\<close> and \<open>ComputeRequestHash\<close> join their fields with a vertical bar and
  print the SHA-256 digest in hexadecimal.  The lemmas show that the joined text determines
  the fields, so equal hashes mean equal fields or an explicit SHA-256 collision.
\<close>

definition bid_preimage :: "string \<Rightarrow> MicroDollars \<Rightarrow> string \<Rightarrow> string" where
  "bid_preimage bidID revenueMicros nonce =
     bidID @ ''|'' @ FormatInt revenueMicros @ ''|'' @ nonce"

definition ComputeBidHash :: "string \<Rightarrow> MicroDollars \<Rightarrow> string \<Rightarrow> string" where
  "ComputeBidHash bidID revenueMicros nonce =
     (let data = bid_preimage bidID revenueMicros nonce;
          sum = sha256_Sum256 data
      in hex_EncodeToString sum)"

definition request_preimage :: "string \<Rightarrow> string \<Rightarrow> string" where
  "request_preimage requestID nonce = requestID @ ''|'' @ nonce"

definition ComputeRequestHash :: "string \<Rightarrow> string \<Rightarrow> string" where
  "ComputeRequestHash requestID nonce =
     (let data = request_preimage requestID nonce;
          sum = sha256_Sum256 data
      in hex_EncodeToString sum)"

lemma bid_preimage_same_nonce:
  "bid_preimage i r n = bid_preimage i' r' n \<longleftrightarrow> i = i' \<and> r = r'"
proof
  assume "bid_preimage i r n = bid_preimage i' r' n"
  then have "i @ CHR ''|'' # FormatInt r = i' @ CHR ''|'' # FormatInt r'"
    by (simp add: bid_preimage_def)
  then have "i = i' \<and> FormatInt r = FormatInt r'"
    by (rule split_at_last_sep [OF _ FormatInt_no_bar FormatInt_no_bar])
  then show "i = i' \<and> r = r'" using FormatInt_inj by blast
qed simp

lemma bid_preimage_inj:
  assumes "CHR ''|'' \<notin> set n" and "CHR ''|'' \<notin> set n'"
  shows "bid_preimage i r n = bid_preimage i' r' n' \<longleftrightarrow> i = i' \<and> r = r' \<and> n = n'"
proof
  assume "bid_preimage i r n = bid_preimage i' r' n'"
  then have eq: "(i @ CHR ''|'' # FormatInt r) @ CHR ''|'' # n
      = (i' @ CHR ''|'' # FormatInt r') @ CHR ''|'' # n'"
    by (simp add: bid_preimage_def)
  then have "n = n'" using split_at_last_sep [OF eq assms] by simp
  with \<open>bid_preimage i r n = bid_preimage i' r' n'\<close> show "i = i' \<and> r = r' \<and> n = n'"
    by (simp add: bid_preimage_same_nonce)
qed simp

lemma request_preimage_inj:
  assumes "CHR ''|'' \<notin> set n" and "CHR ''|'' \<notin> set n'"
  shows "request_preimage i n = request_preimage i' n' \<longleftrightarrow> i = i' \<and> n = n'"
  using split_at_last_sep [of i "CHR ''|''" n i' n'] assms by (auto simp: request_preimage_def)

lemma request_preimage_same_nonce:
  "request_preimage i n = request_preimage i' n \<longleftrightarrow> i = i'"
  by (simp add: request_preimage_def)

lemma ComputeBidHash_eq_iff:
  "ComputeBidHash i r n = ComputeBidHash i' r' n' \<longleftrightarrow>
     sha256_Sum256 (bid_preimage i r n) = sha256_Sum256 (bid_preimage i' r' n')"
  by (simp add: ComputeBidHash_def Let_def hex_inj)

lemma ComputeRequestHash_eq_iff:
  "ComputeRequestHash i n = ComputeRequestHash i' n' \<longleftrightarrow>
     sha256_Sum256 (request_preimage i n) = sha256_Sum256 (request_preimage i' n')"
  by (simp add: ComputeRequestHash_def Let_def hex_inj)

lemma ComputeBidHash_same_nonce:
  "ComputeBidHash i r n = ComputeBidHash i' r' n \<Longrightarrow>
     (i = i' \<and> r = r') \<or> sha256_collision (bid_preimage i r n) (bid_preimage i' r' n)"
  by (auto simp: ComputeBidHash_eq_iff sha256_collision_def bid_preimage_same_nonce)

lemma ComputeRequestHash_same_nonce:
  "ComputeRequestHash i n = ComputeRequestHash i' n \<Longrightarrow>
     i = i' \<or> sha256_collision (request_preimage i n) (request_preimage i' n)"
  by (auto simp: ComputeRequestHash_eq_iff sha256_collision_def request_preimage_same_nonce)

subsection \<open>Properties of the hashes\<close>

text \<open>
  Every bid hash and request hash is 64 lower-case hexadecimal digits.
\<close>

lemma hash_shape:
  "length (ComputeBidHash i r n) = 64 \<and> set (ComputeBidHash i r n) \<subseteq> set ''0123456789abcdef''
   \<and> length (ComputeRequestHash q m) = 64 \<and> set (ComputeRequestHash q m) \<subseteq> set ''0123456789abcdef''"
  unfolding ComputeBidHash_def ComputeRequestHash_def Let_def
  by (intro conjI hex_set) simp_all

text \<open>
  A vertical bar in a nonce would move the borders between the fields: here two different bids
  have the same hash.  The nonces that the enclave generates are hexadecimal.
\<close>

lemma ComputeBidHash_bar_in_nonce:
  "ComputeBidHash ''a|1'' 2 ''n'' = ComputeBidHash ''a'' 1 ''2|n''"
proof -
  have "bid_preimage ''a|1'' 2 ''n'' = bid_preimage ''a'' 1 ''2|n''" by code_simp
  then show ?thesis by (simp add: ComputeBidHash_def)
qed

text \<open>
  C26: a bid hash binds its three fields: for nonces that hold no vertical bar, two hashes are equal
  exactly when the ids, the revenues and the nonces are equal, or the two texts that are
  hashed are a SHA-256 collision.
\<close>

theorem ComputeBidHash_binding:
  assumes "CHR ''|'' \<notin> set n" and "CHR ''|'' \<notin> set n'"
  shows "ComputeBidHash i r n = ComputeBidHash i' r' n' \<longleftrightarrow>
    (i = i' \<and> r = r' \<and> n = n') \<or> sha256_collision (bid_preimage i r n) (bid_preimage i' r' n')"
  using bid_preimage_inj [OF assms, of i r i' r']
  by (auto simp: ComputeBidHash_eq_iff sha256_collision_def)

text \<open>One microdollar more: the hash changes, unless SHA-256 collides on these two texts.\<close>

theorem ComputeBidHash_binding_witness:
  "ComputeBidHash ''bid_123'' 2500000 ''nonce_456'' = ComputeBidHash ''bid_123'' 2500001 ''nonce_456''
    \<longleftrightarrow> sha256_collision ''bid_123|2500000|nonce_456'' ''bid_123|2500001|nonce_456''"
proof -
  have p: "bid_preimage ''bid_123'' 2500000 ''nonce_456'' = ''bid_123|2500000|nonce_456''"
    "bid_preimage ''bid_123'' 2500001 ''nonce_456'' = ''bid_123|2500001|nonce_456''" by code_simp+
  have "CHR ''|'' \<notin> set ''nonce_456''" by simp
  from ComputeBidHash_binding [OF this this, of "''bid_123''" 2500000 "''bid_123''" 2500001]
  show ?thesis unfolding p by simp
qed

text \<open>
  C27: a request hash binds the request id and its nonce in the same way.
\<close>

theorem ComputeRequestHash_binding:
  assumes "CHR ''|'' \<notin> set n" and "CHR ''|'' \<notin> set n'"
  shows "ComputeRequestHash q n = ComputeRequestHash q' n' \<longleftrightarrow>
    (q = q' \<and> n = n') \<or> sha256_collision (request_preimage q n) (request_preimage q' n')"
  using request_preimage_inj [OF assms, of q q']
  by (auto simp: ComputeRequestHash_eq_iff sha256_collision_def)

theorem ComputeRequestHash_binding_witness:
  "ComputeRequestHash ''req-abc'' ''nonce_xyz'' = ComputeRequestHash ''req-abd'' ''nonce_xyz''
    \<longleftrightarrow> sha256_collision ''req-abc|nonce_xyz'' ''req-abd|nonce_xyz''"
proof -
  have "CHR ''|'' \<notin> set ''nonce_xyz''" by simp
  from ComputeRequestHash_binding [OF this this, of "''req-abc''" "''req-abd''"]
  show ?thesis by (simp add: request_preimage_def)
qed

end
