(* ===== verification/Enclave_Attestation.thy ===== *)
theory Enclave_Attestation
  imports Go_Libs Core_Hash
begin

section \<open>enclave/keymanager.go and enclave/attestation.go\<close>

text \<open>
  The enclave's key pair, the fresh nonces, and the two attestations: of an arbitration
  (a hash per ranked bid, the request hash, the winner and the exclusions) and of the key.
\<close>

subsection \<open>KeyManager\<close>

record KeyManager =
  privateKey :: "rsa_PrivateKey option"
  kmPublicKey :: "rsa_PublicKey option"

definition rsaKeyBits :: nat where
  "rsaKeyBits = 2048"

text \<open>\<open>rsa.GenerateKey\<close> draws from \<open>crypto/rand\<close>, here as one read of a stream.\<close>

definition rsa_GenerateKey :: "crypto \<Rightarrow> nat \<Rightarrow> rsa_PrivateKey result io" where
  "rsa_GenerateKey C bits w =
     ((case entropy w (entropy_reads w) of Inl e \<Rightarrow> Inl e | Inr f \<Rightarrow> GenerateKey C bits f),
      w\<lparr>entropy_reads := Suc (entropy_reads w)\<rparr>)"

definition generateRSAKeypair :: "crypto \<Rightarrow> rsa_PrivateKey result io" where
  "generateRSAKeypair C = wrap_io ''generate RSA keypair'' (rsa_GenerateKey C rsaKeyBits)"

definition NewKeyManager :: "crypto \<Rightarrow> KeyManager result io" where
  "NewKeyManager C =
     bind_io (wrap_io ''new key manager'' (generateRSAKeypair C)) (\<lambda>priv.
     lift_io (Inr \<lparr>privateKey = Some priv, kmPublicKey = Some (rsa_Public priv)\<rparr>))"

definition PrivateKey :: "KeyManager \<Rightarrow> rsa_PrivateKey option" where
  "PrivateKey km = privateKey km"

subsection \<open>Nonces and PEM\<close>

definition generateNonce :: "string result io" where
  "generateNonce =
     bind_io (wrap_io ''generate nonce'' (rand_Read 32)) (\<lambda>b. lift_io (Inr (hex_EncodeToString b)))"

text \<open>Marshalling a nil public key dereferences it: a panic.\<close>

definition publicKeyToPEM :: "crypto \<Rightarrow> rsa_PublicKey option \<Rightarrow> string result option" where
  "publicKeyToPEM C pub =
     (case pub of
        None \<Rightarrow> None
      | Some pub \<Rightarrow>
          Some (bind_result (wrap_err ''marshal public key'' (MarshalPKIX C pub)) (\<lambda>derBytes.
                Inr (pem_Encode C \<lparr>pem_Type = ''PUBLIC KEY'', pem_Bytes = derBytes\<rparr>))))"

definition PublicKeyPEM :: "crypto \<Rightarrow> KeyManager \<Rightarrow> string result option" where
  "PublicKeyPEM C km = publicKeyToPEM C (kmPublicKey km)"

subsection \<open>The arbitration attestation\<close>

text \<open>The loop over the resolved bids, which skips entries without a bid.\<close>

fun bid_hashes :: "uuid_pkg \<Rightarrow> string \<Rightarrow> ArbiterBid list \<Rightarrow> string list" where
  "bid_hashes U bidNonce [] = []"
| "bid_hashes U bidNonce (ab # rs) =
     (case abBid ab of
        None \<Rightarrow> bid_hashes U bidNonce rs
      | Some b \<Rightarrow> ComputeBidHash (uuid_String U (ID b)) (Revenue ab) bidNonce # bid_hashes U bidNonce rs)"

definition winner_descriptor :: "uuid_pkg \<Rightarrow> ArbiterBid option \<Rightarrow> ArbiterBidWithoutSource option" where
  "winner_descriptor U winner =
     (case winner of
        None \<Rightarrow> None
      | Some w \<Rightarrow>
          (case abBid w of
             None \<Rightarrow> None
           | Some b \<Rightarrow> Some \<lparr>wsID = uuid_String U (ID b), wsRevenue = Revenue w\<rparr>))"

definition attestation_user_data ::
  "uuid_pkg \<Rightarrow> EnclaveArbitrationRequest \<Rightarrow> ArbiterBid list \<Rightarrow> ArbiterBid option \<Rightarrow> ExcludedBid list
     \<Rightarrow> string \<Rightarrow> string \<Rightarrow> gotime \<Rightarrow> ArbitrationAttestationUserData" where
  "attestation_user_data U req resolved winner excluded bidNonce requestNonce now =
     \<lparr>udRequestID = reqRequestID req,
      udBidHashes = bid_hashes U bidNonce resolved,
      udBidHashNonce = bidNonce,
      udRequestHash = ComputeRequestHash (reqRequestID req) requestNonce,
      udRequestNonce = requestNonce,
      udWinner = winner_descriptor U winner,
      udExcludedBids = excluded,
      udTimestamp = now\<rparr>"

definition GenerateArbitrationAttestation ::
  "uuid_pkg \<Rightarrow> EnclaveAttester option \<Rightarrow> EnclaveArbitrationRequest \<Rightarrow> ArbiterBid list
     \<Rightarrow> ArbiterBid option \<Rightarrow> ExcludedBid list \<Rightarrow> AttestationCOSE result io" where
  "GenerateArbitrationAttestation U attester req resolved winner excluded =
     (case attester of
        None \<Rightarrow> lift_io (Inl (Errorf ''nil attester''))
      | Some attester \<Rightarrow>
          bind_io generateNonce (\<lambda>bidNonce.
          bind_io generateNonce (\<lambda>requestNonce.
          bind_io (\<lambda>w. map_prod Inr id (time_Now w)) (\<lambda>now.
          bind_io (wrap_io ''marshal user data'' (lift_io (Marshal_UserData
                    (attestation_user_data U req resolved winner excluded bidNonce requestNonce (wall now)))))
            (\<lambda>userDataBytes.
          bind_io generateNonce (\<lambda>attestationNonce.
          wrap_io ''NSM attestation'' (lift_io
            (attester \<lparr>optUserData = userDataBytes, optNonce = attestationNonce\<rparr>))))))))"

subsection \<open>The key attestation\<close>

definition GenerateKeyAttestation ::
  "wire_tags \<Rightarrow> crypto \<Rightarrow> EnclaveAttester option \<Rightarrow> rsa_PublicKey option \<Rightarrow> string \<Rightarrow> AttestationCOSE pio" where
  "GenerateKeyAttestation T C attester publicKey token =
     (case attester of
        None \<Rightarrow> lift_pio (Some (Inl (Errorf ''nil attester'')))
      | Some attester \<Rightarrow>
          bind_pio (lift_pio (publicKeyToPEM C publicKey)) (\<lambda>pemStr.
          let userData = \<lparr>akKey = \<lparr>KeyAlgorithm = ''RSA-2048'', PublicKey = pemStr\<rparr>, akAuctionToken = token\<rparr>;
              userDataBytes = json_print (enc_KeyUserData T userData)
          in bind_pio (no_panic generateNonce) (\<lambda>attestationNonce.
             wrap_pio ''NSM key attestation'' (lift_pio (Some
               (attester \<lparr>optUserData = userDataBytes, optNonce = attestationNonce\<rparr>))))))"

subsection \<open>What the attestations say\<close>

lemma generateNonce_Inr:
  "generateNonce w = (Inr s, w1) \<Longrightarrow>
     \<exists>b. length b = 32 \<and> s = hex_EncodeToString b \<and> w1 = w\<lparr>entropy_reads := Suc (entropy_reads w)\<rparr>"
  by (auto simp: generateNonce_def result_simps) (rule exI, rule conjI [rotated], rule refl, simp)

lemma nonce_nonempty: "length b = 32 \<Longrightarrow> hex_EncodeToString b \<noteq> []"
  by (intro hex_nonempty) auto

lemma bid_hashes_resolved:
  "(\<And>ab. ab \<in> set rs \<Longrightarrow> abBid ab \<noteq> None) \<Longrightarrow>
     bid_hashes U n rs = map (\<lambda>ab. ComputeBidHash (uuid_String U (ID (the (abBid ab)))) (Revenue ab) n) rs"
  by (induction rs) (auto split: option.splits)

lemma bid_hashes_set:
  "set (bid_hashes U n rs) = {ComputeBidHash (uuid_String U (ID b)) (Revenue ab) n | ab b.
     ab \<in> set rs \<and> abBid ab = Some b}"
  by (induction rs) (auto split: option.splits)

lemma hash_ascii: "ValidString (ComputeBidHash i r n)" "ValidString (ComputeRequestHash q n)"
  by (simp_all add: ComputeBidHash_def ComputeRequestHash_def Let_def ValidString_hex)

lemma bid_hashes_valid: "list_all ValidString (bid_hashes U n rs)"
  by (auto simp: list_all_iff bid_hashes_set hash_ascii)

lemma user_data_good:
  assumes "uuid_ok U" "ValidString (reqRequestID req)" "list_all good_ExcludedBid excluded" "time_ok now"
  shows "good_UserData (attestation_user_data U req resolved winner excluded
    (hex_EncodeToString b1) (hex_EncodeToString b2) now)"
  using assms
  by (auto simp: good_UserData_def attestation_user_data_def bid_hashes_valid ValidString_hex hash_ascii
    winner_descriptor_def good_WithoutSource_def uuid_okD split: option.splits)

lemma GenerateArbitrationAttestation_Inr:
  assumes "GenerateArbitrationAttestation U attester req resolved winner excluded w = (Inr cose, w')"
  obtains att b1 b2 now s nonce where "attester = Some att" "length b1 = 32" "length b2 = 32"
    "Marshal_UserData (attestation_user_data U req resolved winner excluded
       (hex_EncodeToString b1) (hex_EncodeToString b2) (wall now)) = Inr s"
    "now = clock w (clock_reads w)" "att \<lparr>optUserData = s, optNonce = nonce\<rparr> = Inr cose"
proof (cases attester)
  case None
  then show ?thesis using assms by (simp add: GenerateArbitrationAttestation_def lift_io_def)
next
  case (Some att)
  obtain n1 w1 n2 w2 s n3 w3 where g: "generateNonce w = (Inr n1, w1)" "generateNonce w1 = (Inr n2, w2)"
    "Marshal_UserData (attestation_user_data U req resolved winner excluded n1 n2
       (wall (clock w2 (clock_reads w2)))) = Inr s"
    "att \<lparr>optUserData = s, optNonce = n3\<rparr> = Inr cose"
    using assms
    by (auto simp: GenerateArbitrationAttestation_def Some result_simps time_Now_def)
  obtain b1 b2 where b: "length b1 = 32" "n1 = hex_EncodeToString b1" "length b2 = 32"
    "n2 = hex_EncodeToString b2" and "clock w2 = clock w" "clock_reads w2 = clock_reads w"
    using generateNonce_Inr [OF g(1)] generateNonce_Inr [OF g(2)] by auto
  then show ?thesis using that [OF Some b(1,3) _ refl g(4)] g(3) by simp
qed

end
