(* ===== verification/Enclave_Crypto.thy ===== *)
theory Enclave_Crypto
  imports Core_Seal
begin

section \<open>enclave/crypto.go: opening a sealed price\<close>

text \<open>
  \<open>decryptCPMDollars\<close> with every one of its failure modes, the round trip with
  \<open>SealCPMDollars\<close>, and what a payload says about the price.
\<close>

text \<open>\<open>wantLen\<close> is the message about a length.\<close>

definition wrong_length :: "string \<Rightarrow> nat \<Rightarrow> nat \<Rightarrow> goerr" where
  "wrong_length what got want =
     Errorf (what @ '' has wrong length: got '' @ dec_nat got @ '', want '' @ dec_nat want)"

definition decryptCPMDollars ::
  "(int \<Rightarrow> bool) \<Rightarrow> crypto \<Rightarrow> rsa_PrivateKey option \<Rightarrow> EncryptedRevenue option \<Rightarrow> DollarsPerMille result" where
  "decryptCPMDollars print C priv ct =
     (case priv of None \<Rightarrow> Inl ErrNoKey | Some priv \<Rightarrow>
     (case ct of None \<Rightarrow> Inl ErrNoEncryptedRevenue | Some ct \<Rightarrow>
        if HashAlgorithm ct \<noteq> [] \<and> HashAlgorithm ct \<noteq> HashAlgorithmSHA256
        then Inl (Errorf (''unsupported RSA-OAEP hash algorithm '' @ strconv_Quote print (HashAlgorithm ct)))
        else
          bind_result (wrap_err ''base64-decode encrypted AES key'' (base64_DecodeString (AESKeyEncrypted ct))) (\<lambda>encryptedAESKey.
          bind_result (wrap_err ''base64-decode encrypted payload'' (base64_DecodeString (EncryptedPayload ct))) (\<lambda>encryptedPayload.
          bind_result (wrap_err ''base64-decode nonce'' (base64_DecodeString (Nonce ct))) (\<lambda>nonce.
          bind_result (wrap_err ''RSA-OAEP decrypt AES key'' (DecryptOAEP C priv encryptedAESKey)) (\<lambda>aesKey.
          if length aesKey \<noteq> 32 then Inl (wrong_length ''decrypted AES key'' (length aesKey) 32)
          else
            bind_result (wrap_err ''new AES cipher'' (aes_NewCipher aesKey)) (\<lambda>block.
            bind_result (wrap_err ''new GCM'' (cipher_NewGCM block)) (\<lambda>aesgcm.
            if length nonce \<noteq> gcm_NonceSize then Inl (wrong_length ''nonce'' (length nonce) gcm_NonceSize)
            else
              bind_result (wrap_err ''AES-GCM open'' (GCM_Open C aesgcm nonce encryptedPayload)) (\<lambda>plaintext.
              bind_result (wrap_err (''unmarshal revenue payload '' @ strconv_Quote print plaintext)
                             (Unmarshal_PricePayload plaintext)) (\<lambda>p.
              Inr (Price p)))))))))))"

lemmas decrypt_simps = decryptCPMDollars_def aes_NewCipher_def cipher_NewGCM_def

text \<open>The same as one conjunction: what must hold for a price to come out.\<close>

definition opens_to :: "crypto \<Rightarrow> rsa_PrivateKey \<Rightarrow> EncryptedRevenue \<Rightarrow> bytes \<Rightarrow> bool" where
  "opens_to C priv ct plaintext \<longleftrightarrow>
     (HashAlgorithm ct = [] \<or> HashAlgorithm ct = HashAlgorithmSHA256)
     \<and> (\<exists>ek payload nonce key.
          base64_DecodeString (AESKeyEncrypted ct) = Inr ek
        \<and> base64_DecodeString (EncryptedPayload ct) = Inr payload
        \<and> base64_DecodeString (Nonce ct) = Inr nonce
        \<and> DecryptOAEP C priv ek = Inr key \<and> length key = 32
        \<and> length nonce = gcm_NonceSize \<and> GCM_Open C key nonce payload = Inr plaintext)"

lemma PricePayload_eq: "(q :: PricePayload) = \<lparr>Price = p\<rparr> \<longleftrightarrow> Price q = p"
  by (cases q) auto

lemma decrypt_Some:
  "decryptCPMDollars print C (Some k) (Some c) = Inr p \<longleftrightarrow>
     (\<exists>plaintext. opens_to C k c plaintext \<and> Unmarshal_PricePayload plaintext = Inr \<lparr>Price = p\<rparr>)"
proof -
  have "(\<exists>q. r = Inr q \<and> Price q = p) \<longleftrightarrow> r = Inr \<lparr>Price = p\<rparr>" for r :: "PricePayload result"
    by (cases r) (auto simp: PricePayload_eq)
  moreover have "(\<exists>y. (if length x = n then Inr x else Inl e) = Inr y \<and> P y) \<longleftrightarrow> length x = n \<and> P x"
    for x :: bytes and n and e :: goerr and P by auto
  ultimately show ?thesis
    by (simp add: decrypt_simps opens_to_def result_simps) blast
qed

lemma decrypt_Inr_iff:
  "decryptCPMDollars print C priv ct = Inr p \<longleftrightarrow>
     (\<exists>k c plaintext. priv = Some k \<and> ct = Some c \<and> opens_to C k c plaintext
        \<and> Unmarshal_PricePayload plaintext = Inr \<lparr>Price = p\<rparr>)"
proof (cases "priv = None \<or> ct = None")
  case True
  then show ?thesis by (auto simp: decryptCPMDollars_def split: option.splits)
next
  case False
  then show ?thesis by (auto simp: decrypt_Some)
qed

lemma opens_to_unique: "opens_to C k c a \<Longrightarrow> opens_to C k c b \<Longrightarrow> a = b"
  by (auto simp: opens_to_def)

lemma SealCPMDollars_Inr:
  assumes "SealCPMDollars C pub dpm w = (Inr er, w')"
  obtains k plaintext key nonce seed ek where
    "pub = Some k" "Marshal_PricePayload \<lparr>Price = dpm\<rparr> = Inr plaintext"
    "length key = 32" "length nonce = gcm_NonceSize" "EncryptOAEP C k seed key = Inr ek"
    "er = \<lparr>AESKeyEncrypted = base64_EncodeToString ek,
           EncryptedPayload = base64_EncodeToString (GCM_Seal C key nonce plaintext),
           Nonce = base64_EncodeToString nonce, HashAlgorithm = HashAlgorithmSHA256\<rparr>"
proof (cases pub)
  case None
  then show ?thesis using assms by (simp add: SealCPMDollars_def lift_io_def)
next
  case (Some k)
  obtain plaintext f fa fb ek where s: "Marshal_PricePayload \<lparr>Price = dpm\<rparr> = Inr plaintext"
    "EncryptOAEP C k (map fb [0..<32]) (map f [0..<32]) = Inr ek"
    "er = \<lparr>AESKeyEncrypted = base64_EncodeToString ek,
       EncryptedPayload = base64_EncodeToString
         (GCM_Seal C (map f [0..<32]) (map fa [0..<gcm_NonceSize]) plaintext),
       Nonce = base64_EncodeToString (map fa [0..<gcm_NonceSize]),
       HashAlgorithm = HashAlgorithmSHA256\<rparr>"
    using assms
    by (auto simp: SealCPMDollars_def Some Let_def result_simps rsa_EncryptOAEP_def
      aes_NewCipher_def cipher_NewGCM_def split: if_splits)
  show ?thesis by (rule that [OF Some s(1) _ _ s(2) s(3)]) simp_all
qed

lemma Marshal_finite:
  assumes "wf_f64 x" "Marshal_PricePayload \<lparr>Price = x\<rparr> = Inr s"
  shows "float_ok x \<and> s = json_print (enc_PricePayload \<lparr>Price = x\<rparr>)"
proof -
  have "finite_f64 x" using assms(2) by (cases x) (auto simp: Marshal_PricePayload_def)
  then show ?thesis using assms Marshal_PricePayload_ok [of "\<lparr>Price = x\<rparr>"] by (simp add: float_ok_def)
qed

lemma seal_opens:
  assumes "key_pair C k priv" "gcm_correct C"
    and "SealCPMDollars C (Some k) dpm w = (Inr er, w')"
  shows "\<exists>s. Marshal_PricePayload \<lparr>Price = dpm\<rparr> = Inr s \<and> opens_to C priv er s"
  using assms(3)
proof (rule SealCPMDollars_Inr)
  fix k' plaintext key nonce seed ek
  assume "Some k = Some k'" and m: "Marshal_PricePayload \<lparr>Price = dpm\<rparr> = Inr plaintext"
    and l: "length key = 32" "length nonce = gcm_NonceSize" and e: "EncryptOAEP C k' seed key = Inr ek"
    and er: "er = \<lparr>AESKeyEncrypted = base64_EncodeToString ek,
           EncryptedPayload = base64_EncodeToString (GCM_Seal C key nonce plaintext),
           Nonce = base64_EncodeToString nonce, HashAlgorithm = HashAlgorithmSHA256\<rparr>"
  then have "DecryptOAEP C priv ek = Inr key" using key_pairD [OF assms(1)] by simp
  then show ?thesis using m l gcm_correctD [OF assms(2) l] by (simp add: opens_to_def er)
qed

lemma decrypt_seal:
  assumes "key_pair C k priv" "gcm_correct C" "wf_f64 dpm"
    and "SealCPMDollars C (Some k) dpm w = (Inr er, w')"
  shows "decryptCPMDollars print C (Some priv) (Some er) = Inr dpm"
proof -
  obtain s where s: "Marshal_PricePayload \<lparr>Price = dpm\<rparr> = Inr s" "opens_to C priv er s"
    using seal_opens [OF assms(1,2,4)] by blast
  then show ?thesis
    using Marshal_finite [OF assms(3) s(1)] Unmarshal_Marshal_PricePayload [of dpm]
    by (auto simp: decrypt_Inr_iff)
qed

lemma Marshal_PricePayload_finite: "Marshal_PricePayload \<lparr>Price = x\<rparr> = Inr s \<Longrightarrow> finite_f64 x"
  by (cases x) (auto simp: Marshal_PricePayload_def)

lemma SealCPMDollars_ok:
  assumes "float_ok dpm" and "\<And>i. \<exists>f. entropy w i = Inr f"
    and "\<And>seed key. length key = 32 \<Longrightarrow> \<exists>ek. EncryptOAEP C k seed key = Inr ek"
  shows "\<exists>er w'. SealCPMDollars C (Some k) dpm w = (Inr er, w')"
proof -
  let ?n = "entropy_reads w"
  obtain f g h where e: "entropy w ?n = Inr f" "entropy w (Suc ?n) = Inr g"
    "entropy w (Suc (Suc ?n)) = Inr h" using assms(2) by meson
  obtain ek where ek: "EncryptOAEP C k (map h [0..<32]) (map f [0..<32]) = Inr ek"
    using assms(3) by (metis diff_zero length_map length_upt)
  obtain s where s: "Marshal_PricePayload \<lparr>Price = dpm\<rparr> = Inr s"
    using Marshal_PricePayload_ok [of "\<lparr>Price = dpm\<rparr>"] assms(1) by auto
  show ?thesis
    by (simp add: SealCPMDollars_def bind_io_def wrap_io_def lift_io_def rand_Read_def s e
      aes_NewCipher_def cipher_NewGCM_def rsa_EncryptOAEP_def ek Let_def)
qed

subsection \<open>Properties of sealing and opening\<close>

text \<open>
  C17: sealing a finite price succeeds when the entropy source and OAEP do, and the arbiter that holds
  the private half of the key opens the result to exactly that price.
\<close>

theorem seal_then_decrypt:
  assumes "key_pair C pub priv" and "gcm_correct C" and "float_ok dpm"
    and "\<And>i. \<exists>f. entropy w i = Inr f"
    and "\<And>seed key. length key = 32 \<Longrightarrow> \<exists>ek. EncryptOAEP C pub seed key = Inr ek"
  shows "\<exists>er w'. SealCPMDollars C (Some pub) dpm w = (Inr er, w')
    \<and> decryptCPMDollars print C (Some priv) (Some er) = Inr dpm"
proof -
  obtain er w' where s: "SealCPMDollars C (Some pub) dpm w = (Inr er, w')"
    using SealCPMDollars_ok [of dpm w C pub] assms(3-5) by metis
  moreover have "wf_f64 dpm" using assms(3) by (simp add: float_ok_def)
  ultimately show ?thesis using decrypt_seal [OF assms(1,2) _ s] by blast
qed

theorem seal_then_decrypt_witness:
  "\<exists>er w'. SealCPMDollars ex_crypto (Some \<lparr>rsa_N = 33, rsa_E = 3\<rparr>) (f64_of_int 25) ex_world = (Inr er, w')
    \<and> decryptCPMDollars (\<lambda>_. False) ex_crypto
        (Some \<lparr>rsa_Public = \<lparr>rsa_N = 33, rsa_E = 3\<rparr>, rsa_D = 7, rsa_Primes = [3, 11]\<rparr>) (Some er)
      = Inr (f64_of_int 25)"
proof (rule seal_then_decrypt)
  show "float_ok (f64_of_int 25)" by code_simp
qed (simp_all add: ex_crypto_laws, simp_all add: ex_world_def ex_crypto_def)

text \<open>
  Sealing without a public key is \<open>ErrNoKey\<close>, and sealing a price JSON cannot write (a NaN or an
  infinity) is an error; neither reads any entropy or changes the world.
\<close>

lemma SealCPMDollars_refuses:
  "SealCPMDollars C None dpm w = (Inl ErrNoKey, w)
   \<and> (finite_f64 dpm \<or> (\<exists>e. SealCPMDollars C pub dpm w = (Inl e, w)))"
proof (cases pub)
  case None
  then show ?thesis by (auto simp: SealCPMDollars_def lift_io_def)
next
  case (Some k)
  show ?thesis
  proof (cases "Marshal_PricePayload \<lparr>Price = dpm\<rparr>")
    case (Inl e)
    then show ?thesis
      by (auto simp: SealCPMDollars_def lift_io_def bind_io_def wrap_io_def Some)
  next
    case (Inr s)
    then show ?thesis using Marshal_PricePayload_finite by (simp add: SealCPMDollars_def lift_io_def)
  qed
qed

text \<open>
  C39: sealing succeeds exactly when there is a public key, the price is finite (JSON writes no NaN and no
  infinity), three reads of the entropy source succeed (the AES key, the nonce and the OAEP
  seed, in this order) and OAEP takes the AES key; in all other cases it is an error.
\<close>

theorem SealCPMDollars_succeeds_iff:
  assumes "wf_f64 dpm"
  shows "(\<exists>er w'. SealCPMDollars C pub dpm w = (Inr er, w')) \<longleftrightarrow>
    finite_f64 dpm
    \<and> (\<exists>k aes nonce seed. pub = Some k \<and> entropy w (entropy_reads w) = Inr aes
         \<and> entropy w (entropy_reads w + 1) = Inr nonce \<and> entropy w (entropy_reads w + 2) = Inr seed
         \<and> is_ok (EncryptOAEP C k (map seed [0..<32]) (map aes [0..<32])))"
proof (cases "finite_f64 dpm")
  case False
  then show ?thesis using SealCPMDollars_refuses [of C dpm w pub] by auto
next
  case True
  then obtain s where "Marshal_PricePayload \<lparr>Price = dpm\<rparr> = Inr s"
    using Marshal_PricePayload_ok [of "\<lparr>Price = dpm\<rparr>"] assms by (auto simp: float_ok_def)
  note d = SealCPMDollars_def bind_io_def wrap_io_def lift_io_def rand_Read_def rsa_EncryptOAEP_def
    aes_NewCipher_def cipher_NewGCM_def Let_def \<open>Marshal_PricePayload \<lparr>Price = dpm\<rparr> = Inr s\<close>
  let ?n = "entropy_reads w"
  show ?thesis
  proof (cases pub)
    case None
    then show ?thesis by (simp add: SealCPMDollars_def lift_io_def)
  next
    case (Some k)
    show ?thesis
    proof (cases "\<exists>f g h. entropy w ?n = Inr f \<and> entropy w (Suc ?n) = Inr g \<and> entropy w (Suc (Suc ?n)) = Inr h")
      case reads: True
      then obtain f g h where "entropy w ?n = Inr f" "entropy w (Suc ?n) = Inr g" "entropy w (Suc (Suc ?n)) = Inr h"
        by blast
      then show ?thesis using True Some
        by (cases "EncryptOAEP C k (map h [0..<32]) (map f [0..<32])") (simp_all add: d)
    next
      case False
      then show ?thesis using Some
        by (cases "entropy w ?n"; cases "entropy w (Suc ?n)"; cases "entropy w (Suc (Suc ?n))") (simp_all add: d)
    qed
  qed
qed

theorem SealCPMDollars_succeeds_iff_witness:
  "\<exists>er w'. SealCPMDollars ex_crypto (Some \<lparr>rsa_N = 33, rsa_E = 3\<rparr>) (f64_of_int 25) ex_world = (Inr er, w')"
proof -
  have "wf_f64 (f64_of_int 25)" "finite_f64 (f64_of_int 25)"
    using f64_of_int_props(1) [of 25] f64_of_int_exact [of 25] by simp_all
  then show ?thesis
    by (intro iffD2 [OF SealCPMDollars_succeeds_iff]) (simp_all add: ex_world_def ex_crypto_def)
qed

text \<open>
  The two sentinel errors classify the failures: \<open>ErrNoKey\<close> means there is no key, and
  \<open>ErrNoEncryptedRevenue\<close> that there is a key but nothing sealed; no other failure is either.
\<close>

lemma decryptCPMDollars_sentinels:
  "(decryptCPMDollars print C priv ct = Inl ErrNoKey \<longleftrightarrow> priv = None)
   \<and> (decryptCPMDollars print C priv ct = Inl ErrNoEncryptedRevenue \<longleftrightarrow> priv \<noteq> None \<and> ct = None)"
  by (auto simp: decryptCPMDollars_def result_simps ErrNoKey_def ErrNoEncryptedRevenue_def
    wrong_length_def split: option.splits if_splits)

subsection \<open>What a payload says about the price\<close>

text \<open>
  The prices a payload gives, in order: the numbers under the keys that name the field, null
  counting as none.  A payload that is neither null nor an object, or that has anything else
  under such a key than a number in the range of float64, is ill-formed.
\<close>

definition price_values :: "(string \<times> json) list \<Rightarrow> json list" where
  "price_values kvs = [v. (k, v) \<leftarrow> kvs, fold_name (json_unquote k) = ''PRICE'', v \<noteq> JNull]"

definition json_price :: "json \<Rightarrow> DollarsPerMille option" where
  "json_price j =
     (case j of JNum n \<Rightarrow> if finite_f64 (ParseFloat_num n) then Some (ParseFloat_num n) else None | _ \<Rightarrow> None)"

definition payload_prices :: "bytes \<Rightarrow> DollarsPerMille list option" where
  "payload_prices plaintext =
     (case json_parse plaintext of
        Some JNull \<Rightarrow> Some []
      | Some (JObj kvs) \<Rightarrow> those (map json_price (price_values kvs))
      | _ \<Rightarrow> None)"

lemma fold_price: "fold_name ''price'' = ''PRICE''"
  by code_simp

lemma find_price:
  "find_field [(''price'', d)] key = (if fold_name key = ''PRICE'' then Some d else None)"
proof -
  have "fold_name ''price'' = fold_name key \<longleftrightarrow> fold_name key = ''PRICE''" unfolding fold_price by (rule eq_commute)
  then show ?thesis using fold_price by (simp add: find_field_def del: fold_name.simps)
qed

lemma dec_price:
  "v \<noteq> JNull \<Longrightarrow> dec_float64 v old = (case json_price v of None \<Rightarrow> Inl err_json_type | Some f \<Rightarrow> Inr f)"
  by (cases v) (simp_all add: dec_float64_def json_price_def)

lemma dec_price_members:
  "dec_members [(''price'', dec_field Price (\<lambda>v p. p\<lparr>Price := v\<rparr>) dec_float64)] kvs p
   = (case those (map json_price (price_values kvs)) of
        None \<Rightarrow> Inl err_json_type | Some ps \<Rightarrow> Inr \<lparr>Price = last (Price p # ps)\<rparr>)"
proof (induction kvs arbitrary: p)
  case Nil
  then show ?case by (simp add: price_values_def PricePayload_eq)
next
  case (Cons kv kvs)
  obtain k v where kv: "kv = (k, v)" by fastforce
  have n: "dec_float64 JNull old = Inr old" for old by (simp add: dec_float64_def)
  show ?case
    using Cons.IH by (cases "v = JNull"; cases "json_price v")
      (auto simp: kv dec_members.simps(2) find_price price_values_def dec_field_def dec_price n
        simp del: fold_name.simps split: option.splits)
qed

lemma dec_PricePayload_iff:
  "dec_PricePayload j \<lparr>Price = f64_zero\<rparr> = Inr \<lparr>Price = p\<rparr> \<longleftrightarrow>
     (case j of JNull \<Rightarrow> p = f64_zero
      | JObj kvs \<Rightarrow> \<exists>ps. those (map json_price (price_values kvs)) = Some ps \<and> p = last (f64_zero # ps)
      | _ \<Rightarrow> False)"
proof (cases j)
  case (JObj kvs)
  show ?thesis
    by (cases "those (map json_price (price_values kvs))")
      (auto simp only: JObj dec_PricePayload_def dec_struct_def dec_price_members json.case option.case
        PricePayload.select_convs sum.inject PricePayload.ext_inject sum.distinct option.distinct option.inject)
qed (auto simp: dec_PricePayload_def dec_struct_def)

lemma Unmarshal_payload:
  "Unmarshal_PricePayload plaintext = Inr \<lparr>Price = p\<rparr>
     \<longleftrightarrow> (\<exists>ps. payload_prices plaintext = Some ps \<and> p = last (f64_zero # ps))"
proof (cases "json_parse plaintext")
  case None
  then show ?thesis by (simp add: Unmarshal_PricePayload_def json_Unmarshal_def payload_prices_def)
next
  case (Some j)
  have "Unmarshal_PricePayload plaintext = dec_PricePayload j \<lparr>Price = f64_zero\<rparr>"
    by (simp add: Unmarshal_PricePayload_def json_Unmarshal_def Some)
  then show ?thesis
    using dec_PricePayload_iff [of j p] by (cases j) (simp_all add: payload_prices_def Some del: last.simps, simp)
qed

text \<open>What a sealed price opens to: the last price of its payload, zero when it has none.\<close>

lemma decrypt_payload:
  assumes "opens_to C k c plaintext"
  shows "decryptCPMDollars print C (Some k) (Some c) = Inr p
    \<longleftrightarrow> (\<exists>ps. payload_prices plaintext = Some ps \<and> p = last (f64_zero # ps))"
  unfolding decrypt_Some Unmarshal_payload using assms opens_to_unique [OF assms] by blast

end
