(* ===== verification/Core_Ranking.thy ===== *)
theory Core_Ranking
  imports Core_Arbiter "HOL-Library.FuncSet"
begin

section \<open>core/arbiter.go: what RankBids guarantees\<close>

text \<open>
  The abstract specification \<open>ranking\<close> of an arbitration (a permutation of the bids in
  descending order of revenue, its head the winner), the analysis of the Fisher-Yates
  shuffle, and the properties of \<open>RankBids\<close>: no panic under \<open>math/rand\<close>, refinement of
  the specification in both directions, determinism without ties, uniform tie-breaking.
\<close>

definition ranking :: "ArbiterBid list \<Rightarrow> ArbitrateResponse \<Rightarrow> bool" where
  "ranking bids resp \<longleftrightarrow>
     mset (arBids resp) = mset bids
     \<and> sorted_wrt (\<lambda>a b. revenue_key b \<le> revenue_key a) (arBids resp)
     \<and> Winner resp = (case arBids resp of [] \<Rightarrow> None | b # _ \<Rightarrow> Some b)"

lemma RankBids_Some:
  assumes "bids \<noteq> []"
    and "apply_swaps bids ((case src of None \<Rightarrow> m | Some r \<Rightarrow> r) (length bids)) = Some ys"
  shows "RankBids bids src m =
    Some \<lparr>arBids = SortStableFunc by_revenue_desc ys,
          Winner = Some (SortStableFunc by_revenue_desc ys ! 0)\<rparr>"
  using assms by (simp add: RankBids_def Let_def)

lemma RankBids_ranking:
  assumes "RankBids bids src m = Some resp"
  shows "ranking bids resp"
proof (cases "bids = []")
  case True
  then show ?thesis using assms by (auto simp: RankBids_def ranking_def)
next
  case False
  with assms obtain ys where
    ys: "apply_swaps bids ((case src of None \<Rightarrow> m | Some r \<Rightarrow> r) (length bids)) = Some ys"
    by (auto simp: RankBids_def Let_def split: option.splits)
  have mset: "mset (SortStableFunc by_revenue_desc ys) = mset bids"
    using apply_swaps_mset [OF ys] by (simp add: go_sort.srt_mset)
  with False have "SortStableFunc by_revenue_desc ys \<noteq> []" by auto
  then show ?thesis
    using assms RankBids_Some [OF False ys] mset go_sort.srt_sorted [of ys]
    by (auto simp: ranking_def neq_Nil_conv)
qed

lemma RankBids_math_rand: "\<exists>resp. RankBids bids None (rand_Shuffle v) = Some resp"
proof (cases "bids = []")
  case False
  obtain ys where "apply_swaps bids (rand_Shuffle v (length bids)) = Some ys"
    using math_rand.shuffle_no_panic by blast
  then show ?thesis using False by (simp add: RankBids_def Let_def)
qed (simp add: RankBids_def)

lemma ranking_head_max:
  assumes "ranking bids resp" and "Winner resp = Some w" and "b \<in> set bids"
  shows "w \<in> set bids \<and> revenue_key b \<le> revenue_key w"
proof -
  have "set (arBids resp) = set bids"
    using assms(1) mset_eq_setD unfolding ranking_def by blast
  then show ?thesis
    using assms unfolding ranking_def by (cases "arBids resp") auto
qed

subsection \<open>The Fisher-Yates shuffle\<close>

definition swp :: "'a list \<Rightarrow> nat \<Rightarrow> nat \<Rightarrow> 'a list" where
  "swp xs i j = xs[i := xs ! j, j := xs ! i]"

fun fy_list :: "(nat \<Rightarrow> nat) \<Rightarrow> nat \<Rightarrow> 'a list \<Rightarrow> 'a list" where
  "fy_list d 0 xs = xs"
| "fy_list d (Suc k) xs = fy_list d k (swp xs k (d k))"

lemma length_swp [simp]: "length (swp xs i j) = length xs"
  by (simp add: swp_def)

lemma length_fy_list [simp]: "length (fy_list d n xs) = length xs"
  by (induction d n xs rule: fy_list.induct) auto

lemma mset_swp: "i < length xs \<Longrightarrow> j < length xs \<Longrightarrow> mset (swp xs i j) = mset xs"
  by (simp add: swp_def mset_swap)

lemma swp_nth_first: "i < length xs \<Longrightarrow> j < length xs \<Longrightarrow> swp xs i j ! i = xs ! j"
  by (cases "i = j") (auto simp: swp_def)

lemma swp_nth_other: "m \<noteq> i \<Longrightarrow> m \<noteq> j \<Longrightarrow> swp xs i j ! m = xs ! m"
  by (simp add: swp_def)

lemma swp_same [simp]: "swp xs i i = xs"
  by (simp add: swp_def)

lemma apply_swaps_fy:
  assumes "\<And>i. i < n \<Longrightarrow> d i \<le> i" and "n \<le> length xs"
  shows "apply_swaps xs (fy_swaps d n) = Some (fy_list d n xs)"
  using assms
proof (induction d n arbitrary: xs rule: fy_swaps.induct)
  case (1 d k)
  have d: "d (Suc k) \<le> Suc k" using "1.prems"(1) by simp
  have "swap_elems xs (int (Suc k), int (d (Suc k))) = Some (swp xs (Suc k) (d (Suc k)))"
    using d "1.prems"(2) nat_int [of "Suc k"] by (simp add: swp_def del: of_nat_Suc)
  then show ?case using "1.IH" "1.prems" by simp
next
  case "2_2"
  then show ?case by simp
qed simp

lemma fy_list_cong: "(\<And>i. i < n \<Longrightarrow> d i = d' i) \<Longrightarrow> fy_list d n xs = fy_list d' n xs"
  by (induction n arbitrary: xs) auto

lemma fy_list_mset:
  "(\<And>i. i < n \<Longrightarrow> d i \<le> i) \<Longrightarrow> n \<le> length xs \<Longrightarrow> mset (fy_list d n xs) = mset xs"
proof (induction n arbitrary: xs)
  case (Suc n)
  have "d n \<le> n" using Suc.prems(1) by simp
  then have "mset (swp xs n (d n)) = mset xs" using Suc.prems(2) by (intro mset_swp) auto
  then show ?case using Suc by simp
qed simp

lemma fy_list_nth_beyond:
  "(\<And>i. i < n \<Longrightarrow> d i \<le> i) \<Longrightarrow> n \<le> m \<Longrightarrow> fy_list d n xs ! m = xs ! m"
proof (induction n arbitrary: xs)
  case (Suc n)
  have "d n \<le> n" using Suc.prems(1) by simp
  then have "swp xs n (d n) ! m = xs ! m" using Suc.prems(2) by (intro swp_nth_other) auto
  then show ?case using Suc by simp
qed simp

lemma fy_list_nth_last:
  assumes "\<And>i. i < Suc n \<Longrightarrow> d i \<le> i" and "Suc n \<le> length xs"
  shows "fy_list d (Suc n) xs ! n = xs ! d n"
proof -
  have "d n \<le> n" using assms(1) by simp
  then have "swp xs n (d n) ! n = xs ! d n" using assms(2) by (intro swp_nth_first) auto
  then show ?thesis
    using fy_list_nth_beyond [of n d n "swp xs n (d n)"] assms by simp
qed

text \<open>Every permutation is reached, and on distinct elements by one choice of draws.\<close>

lemma fy_list_surj:
  assumes "mset ys = mset xs" and "n \<le> length xs"
    and "\<And>i. n \<le> i \<Longrightarrow> i < length xs \<Longrightarrow> ys ! i = xs ! i"
  shows "\<exists>d. (\<forall>i. d i \<le> i) \<and> fy_list d n xs = ys"
  using assms
proof (induction n arbitrary: xs)
  case 0
  then have "xs = ys"
    by (intro nth_equalityI) (auto dest: mset_eq_length)
  then show ?case by (intro exI [of _ "\<lambda>i. i"]) simp
next
  case (Suc n)
  have len: "length ys = length xs" using Suc.prems(1) by (rule mset_eq_length)
  have dr: "drop (Suc n) ys = drop (Suc n) xs"
    using Suc.prems(3) len by (intro nth_equalityI) auto
  have "mset (take (Suc n) ys) + mset (drop (Suc n) ys) = mset (take (Suc n) xs) + mset (drop (Suc n) xs)"
    using Suc.prems(1) by (metis append_take_drop_id mset_append)
  then have "mset (take (Suc n) ys) = mset (take (Suc n) xs)" by (simp add: dr)
  then have "set (take (Suc n) ys) = set (take (Suc n) xs)" by (rule mset_eq_setD)
  moreover have "ys ! n \<in> set (take (Suc n) ys)"
    using Suc.prems(2) len by (auto simp: in_set_conv_nth intro!: exI [of _ n])
  ultimately have "ys ! n \<in> set (take (Suc n) xs)" by simp
  then obtain j where "j < length (take (Suc n) xs)" and "take (Suc n) xs ! j = ys ! n"
    by (auto simp: in_set_conv_nth)
  then have j: "j \<le> n" "xs ! j = ys ! n" by auto
  have "\<exists>d. (\<forall>i. d i \<le> i) \<and> fy_list d n (swp xs n j) = ys"
  proof (rule Suc.IH)
    show "mset ys = mset (swp xs n j)" using Suc.prems j by (simp add: mset_swp)
    show "n \<le> length (swp xs n j)" using Suc.prems by simp
    show "ys ! i = swp xs n j ! i" if "n \<le> i" "i < length (swp xs n j)" for i
      using that Suc.prems j by (cases "i = n") (auto simp: swp_nth_first swp_nth_other)
  qed
  then obtain d where d: "\<forall>i. d i \<le> i" "fy_list d n (swp xs n j) = ys" by blast
  have "fy_list (d(n := j)) n (swp xs n j) = fy_list d n (swp xs n j)"
    by (rule fy_list_cong) simp
  then have "fy_list (d(n := j)) (Suc n) xs = ys"
    unfolding fy_list.simps fun_upd_same using d(2) by (rule trans)
  moreover have "\<forall>i. (d(n := j)) i \<le> i" using d(1) j by simp
  ultimately show ?case by blast
qed

lemma fy_list_inj:
  assumes "distinct xs" and "n \<le> length xs"
    and "\<And>i. i < n \<Longrightarrow> d i \<le> i" and "\<And>i. i < n \<Longrightarrow> d' i \<le> i"
    and "fy_list d n xs = fy_list d' n xs" and "i < n"
  shows "d i = d' i"
  using assms
proof (induction n arbitrary: xs i)
  case (Suc n)
  have b: "d n \<le> n" "d' n \<le> n" using Suc.prems(3,4) by auto
  have "xs ! d n = xs ! d' n"
    using fy_list_nth_last [of n d xs] fy_list_nth_last [of n d' xs] Suc.prems by simp
  then have eq: "d n = d' n"
    using Suc.prems(1,2) b by (simp add: nth_eq_iff_index_eq)
  have dist: "distinct (swp xs n (d n))"
    using Suc.prems(1,2) b by (metis mset_swp le_imp_less_Suc less_le_trans lessI mset_eq_imp_distinct_iff)
  have "d i = d' i" if "i < n" for i
    by (rule Suc.IH [OF dist]) (use Suc.prems that eq in auto)
  with eq Suc.prems(6) show ?case by (cases "i = n") auto
qed simp

subsection \<open>Tie-breaking\<close>

text \<open>The draws the shuffle of a slice of length n can see: a number up to i for each i.\<close>

definition draws :: "nat \<Rightarrow> (nat \<Rightarrow> nat) set" where
  "draws n = (PiE {..<n} (\<lambda>i. {..i}))"

definition winning_draws :: "ArbiterBid list \<Rightarrow> ArbiterBid \<Rightarrow> (nat \<Rightarrow> nat) set" where
  "winning_draws bids b =
     {d \<in> draws (length bids).
        map_option Winner (RankBids bids None (fy_swaps d)) = Some (Some b)}"

definition winning_perms :: "ArbiterBid list \<Rightarrow> ArbiterBid \<Rightarrow> ArbiterBid list set" where
  "winning_perms bids b =
     {ys. mset ys = mset bids \<and> SortStableFunc by_revenue_desc ys ! 0 = b}"

lemma draws_bound: "d \<in> draws n \<Longrightarrow> i < n \<Longrightarrow> d i \<le> i"
  by (auto simp: draws_def PiE_iff)

lemma finite_draws: "finite (draws n)"
  by (auto simp: draws_def intro: finite_PiE)

lemma RankBids_fy:
  assumes "bids \<noteq> []" and "d \<in> draws (length bids)"
  shows "RankBids bids None (fy_swaps d) =
    Some \<lparr>arBids = SortStableFunc by_revenue_desc (fy_list d (length bids) bids),
          Winner = Some (SortStableFunc by_revenue_desc (fy_list d (length bids) bids) ! 0)\<rparr>"
  using apply_swaps_fy [of "length bids" d bids] draws_bound [OF assms(2)] assms(1)
  by (simp add: RankBids_def Let_def)

lemma winning_draws_perms:
  assumes "bids \<noteq> []" and "distinct bids"
  shows "bij_betw (\<lambda>d. fy_list d (length bids) bids) (winning_draws bids b) (winning_perms bids b)"
  unfolding bij_betw_def
proof
  let ?n = "length bids"
  show "inj_on (\<lambda>d. fy_list d ?n bids) (winning_draws bids b)"
  proof (rule inj_onI)
    fix d d'
    assume d: "d \<in> winning_draws bids b" and d': "d' \<in> winning_draws bids b"
      and eq: "fy_list d ?n bids = fy_list d' ?n bids"
    then have D: "d \<in> draws ?n" "d' \<in> draws ?n" by (auto simp: winning_draws_def)
    have "d i = d' i" if "i < ?n" for i
      using fy_list_inj [OF assms(2) order.refl _ _ eq that] draws_bound [OF D(1)] draws_bound [OF D(2)]
      by blast
    with D show "d = d'" unfolding draws_def by (intro PiE_ext) auto
  qed
  show "(\<lambda>d. fy_list d ?n bids) ` winning_draws bids b = winning_perms bids b"
  proof (intro equalityI subsetI)
    fix ys assume "ys \<in> (\<lambda>d. fy_list d ?n bids) ` winning_draws bids b"
    then obtain d where d: "d \<in> draws ?n" "ys = fy_list d ?n bids"
      "map_option Winner (RankBids bids None (fy_swaps d)) = Some (Some b)"
      by (auto simp: winning_draws_def)
    then show "ys \<in> winning_perms bids b"
      using RankBids_fy [OF assms(1) d(1)] fy_list_mset [of ?n d bids] draws_bound [OF d(1)]
      by (simp add: winning_perms_def)
  next
    fix ys assume ys: "ys \<in> winning_perms bids b"
    then obtain d where d: "\<forall>i. d i \<le> i" "fy_list d ?n bids = ys"
      using fy_list_surj [of ys bids ?n] by (auto simp: winning_perms_def)
    define e where "e = restrict d {..<?n}"
    have e: "e \<in> draws ?n" using d(1) by (auto simp: e_def draws_def)
    have "fy_list e ?n bids = ys"
      using fy_list_cong [of ?n e d bids] d(2) by (simp add: e_def)
    moreover have "e \<in> winning_draws bids b"
      using ys e RankBids_fy [OF assms(1) e] calculation
      by (simp add: winning_draws_def winning_perms_def)
    ultimately show "ys \<in> (\<lambda>d. fy_list d ?n bids) ` winning_draws bids b" by blast
  qed
qed

text \<open>Renaming two bids of one revenue into each other commutes with the sort.\<close>

definition exchange :: "'a \<Rightarrow> 'a \<Rightarrow> 'a \<Rightarrow> 'a" where
  "exchange a b x = (if x = a then b else if x = b then a else x)"

lemma exchange_exchange [simp]: "exchange a b (exchange a b x) = x"
  by (simp add: exchange_def)

lemma map_exchange_exchange [simp]: "map (exchange a b) (map (exchange a b) xs) = xs"
  by (simp add: o_def)

lemma insert_left_map:
  assumes "\<And>x. revenue_key (f x) = revenue_key x"
  shows "insert_left by_revenue_desc (f x) (map f ys) = map f (insert_left by_revenue_desc x ys)"
  by (induction ys) (auto simp: by_revenue_desc_less assms)

lemma SortStable_map:
  assumes "\<And>x. revenue_key (f x) = revenue_key x"
  shows "SortStableFunc by_revenue_desc (map f xs) = map f (SortStableFunc by_revenue_desc xs)"
proof -
  have "foldl (\<lambda>acc x. insert_left by_revenue_desc x acc) [] (map f xs)
      = map f (foldl (\<lambda>acc x. insert_left by_revenue_desc x acc) [] xs)"
    by (induction xs rule: rev_induct) (auto simp: insert_left_map [OF assms])
  then show ?thesis by (simp add: SortStableFunc_def rev_map)
qed

lemma mset_map_exchange:
  assumes "distinct xs" and "a \<in> set xs" and "b \<in> set xs" and "mset ys = mset xs"
  shows "mset (map (exchange a b) ys) = mset xs"
proof -
  have s: "set ys = set xs" and dy: "distinct ys"
    using assms mset_eq_setD mset_eq_imp_distinct_iff by blast+
  have "inj (exchange a b)" by (metis exchange_exchange injI)
  then have d: "distinct (map (exchange a b) ys)"
    using dy inj_on_subset [OF _ subset_UNIV] by (simp add: distinct_map)
  have "exchange a b ` set xs \<subseteq> set xs"
    using assms(2,3) by (auto simp: exchange_def)
  moreover have "set xs \<subseteq> exchange a b ` set xs"
    using calculation by (metis exchange_exchange image_eqI image_subset_iff subsetI)
  ultimately have "set (map (exchange a b) ys) = set xs" using s by auto
  then show ?thesis
    using set_eq_iff_mset_eq_distinct [OF d assms(1)] by blast
qed

lemma winning_perms_exchange:
  assumes "distinct bids" and "a \<in> set bids" and "b \<in> set bids"
    and "revenue_key a = revenue_key b" and "ys \<in> winning_perms bids a"
  shows "map (exchange a b) ys \<in> winning_perms bids b"
proof -
  have ys: "mset ys = mset bids" "SortStableFunc by_revenue_desc ys ! 0 = a"
    using assms(5) by (auto simp: winning_perms_def)
  have "revenue_key (exchange a b x) = revenue_key x" for x
    using assms(4) by (simp add: exchange_def)
  then have "SortStableFunc by_revenue_desc (map (exchange a b) ys)
      = map (exchange a b) (SortStableFunc by_revenue_desc ys)"
    by (rule SortStable_map)
  moreover have "0 < length (SortStableFunc by_revenue_desc ys)"
    using ys(1) assms(2) go_sort.srt_length [of ys] by (metis length_pos_if_in_set size_mset)
  ultimately show ?thesis
    using ys mset_map_exchange [OF assms(1-3) ys(1)]
    by (simp add: winning_perms_def exchange_def)
qed

lemma card_winning_draws:
  assumes "distinct bids" and "a \<in> set bids" and "b \<in> set bids"
    and "revenue_key a = revenue_key b"
  shows "card (winning_draws bids a) = card (winning_draws bids b)"
proof -
  have ne: "bids \<noteq> []" using assms(2) by auto
  have sub: "map (exchange a b) ` winning_perms bids a \<subseteq> winning_perms bids b"
    using winning_perms_exchange [OF assms] by blast
  have ex: "exchange b a = exchange a b" by (auto simp: exchange_def)
  have sup: "winning_perms bids b \<subseteq> map (exchange a b) ` winning_perms bids a"
  proof
    fix ys assume "ys \<in> winning_perms bids b"
    then have "map (exchange a b) ys \<in> winning_perms bids a"
      using winning_perms_exchange [OF assms(1,3,2) assms(4) [symmetric]] by (simp add: ex)
    then show "ys \<in> map (exchange a b) ` winning_perms bids a"
      by (metis image_eqI map_exchange_exchange)
  qed
  have "inj (map (exchange a b))" by (metis injI map_exchange_exchange)
  then have "inj_on (map (exchange a b)) (winning_perms bids a)"
    by (rule inj_on_subset [OF _ subset_UNIV])
  then have "bij_betw (map (exchange a b)) (winning_perms bids a) (winning_perms bids b)"
    using sub sup by (auto simp: bij_betw_def)
  then have "card (winning_perms bids a) = card (winning_perms bids b)"
    by (rule bij_betw_same_card)
  then show ?thesis
    using bij_betw_same_card [OF winning_draws_perms [OF ne assms(1)]] by metis
qed

subsection \<open>Properties of RankBids\<close>

text \<open>A bid for the concrete instances below.\<close>

definition ex_bid :: "uuid \<Rightarrow> MicroDollars \<Rightarrow> ArbiterBid" where
  "ex_bid u r =
     \<lparr>abBid = Some \<lparr>ID = u, Source = ''x'', CleartextRevenue = Some (CMicroDollars r),
                   EncryptedCPMDollars = None\<rparr>,
      Revenue = r, Decrypted = False\<rparr>"

lemmas RankBids_eval = RankBids_def SortStableFunc_def by_revenue_desc_def cmp_Compare_def ex_bid_def

text \<open>
  C9: under \<open>math/rand\<close> an arbitration always returns, and its result is a permutation of the
  input bids in descending order of revenue with the head as winner.
\<close>

theorem RankBids_math_rand_ranks:
  "\<exists>resp. RankBids bids None (rand_Shuffle v) = Some resp \<and> ranking bids resp"
  using RankBids_math_rand RankBids_ranking by blast

text \<open>
  C10: the results that the shuffle and the stable sort can produce are exactly the rankings of
  the specification: no descending order of the bids is out of reach, and nothing else is.
\<close>

theorem RankBids_outcomes:
  "(\<exists>d. (\<forall>i. d i \<le> i) \<and> RankBids bids None (fy_swaps d) = Some resp) \<longleftrightarrow> ranking bids resp"
proof
  assume r: "ranking bids resp"
  let ?ys = "arBids resp"
  show "\<exists>d. (\<forall>i. d i \<le> i) \<and> RankBids bids None (fy_swaps d) = Some resp"
  proof (cases "bids = []")
    case True
    then show ?thesis using r
      by (intro exI [of _ "\<lambda>i. i"]) (auto simp: RankBids_def ranking_def)
  next
    case False
    obtain d where d: "\<forall>i. d i \<le> i" "fy_list d (length bids) bids = ?ys"
      using fy_list_surj [of ?ys bids "length bids"] r by (auto simp: ranking_def)
    have "apply_swaps bids (fy_swaps d (length bids)) = Some ?ys"
      using apply_swaps_fy [of "length bids" d bids] d by simp
    then have "RankBids bids None (fy_swaps d) = Some
        \<lparr>arBids = SortStableFunc by_revenue_desc ?ys,
         Winner = Some (SortStableFunc by_revenue_desc ?ys ! 0)\<rparr>"
      using False by (simp add: RankBids_def Let_def)
    moreover have "SortStableFunc by_revenue_desc ?ys = ?ys"
      using r by (simp add: go_sort.srt_eq_sort_key sort_key_id_if_sorted sorted_wrt_map ranking_def)
    moreover have "?ys \<noteq> []" using r False by (auto simp: ranking_def)
    ultimately show ?thesis using r d(1)
      by (intro exI [of _ d]) (auto simp: ranking_def neq_Nil_conv)
  qed
qed (use RankBids_ranking in blast)

text \<open>
  Whatever the source of randomness, the winner is missing exactly when there are no bids;
  otherwise it is one of the bids and no bid has a larger revenue.
\<close>

lemma RankBids_winner:
  assumes "RankBids bids src m = Some resp"
  shows "(Winner resp = None \<longleftrightarrow> bids = [])
    \<and> (\<forall>w b. Winner resp = Some w \<and> b \<in> set bids \<longrightarrow>
          w \<in> set bids \<and> sint (Revenue b) \<le> sint (Revenue w))"
proof -
  have r: "ranking bids resp" using assms by (rule RankBids_ranking)
  then have "Winner resp = None \<longleftrightarrow> bids = []"
    by (cases "arBids resp") (auto simp: ranking_def)
  then show ?thesis using ranking_head_max [OF r] by (auto simp: revenue_key_def)
qed

text \<open>
  \<open>RankBids\<close> panics exactly when there are bids and the source swaps out of range.
\<close>

lemma RankBids_panic_iff:
  "RankBids bids src m = None \<longleftrightarrow>
     bids \<noteq> [] \<and> (\<exists>s. s \<in> set ((case src of None \<Rightarrow> m | Some r \<Rightarrow> r) (length bids))
                     \<and> \<not> in_range (length bids) s)"
  using apply_swaps_None [of bids "(case src of None \<Rightarrow> m | Some r \<Rightarrow> r) (length bids)"]
  by (auto simp: RankBids_def Let_def split: option.splits)

text \<open>
  C38: when all revenues differ, the response does not depend on the randomness nor on the order
  of the input bids.
\<close>

theorem RankBids_no_ties:
  assumes "distinct (map Revenue bids)" and "mset bids' = mset bids"
    and "RankBids bids src m = Some r" and "RankBids bids' src' m' = Some r'"
  shows "r = r'"
proof -
  have k: "ranking bids r" "ranking bids' r'" using assms RankBids_ranking by blast+
  have inj: "inj_on revenue_key (set bids)"
    using assms(1) sint_int64_inject by (auto simp: distinct_map revenue_key_def inj_on_def)
  have m: "mset (arBids r) = mset bids" "mset (arBids r') = mset bids"
    using k assms(2) by (auto simp: ranking_def)
  have s: "sorted (map (\<lambda>b. - revenue_key b) (arBids r))"
    "sorted (map (\<lambda>b. - revenue_key b) (arBids r'))"
    using k by (auto simp: ranking_def sorted_wrt_map)
  have "set (arBids r) = set bids" "set (arBids r') = set bids" using m by (metis mset_eq_setD)+
  with inj have "inj_on (\<lambda>b. - revenue_key b) (set (arBids r) \<union> set (arBids r'))"
    by (simp add: inj_on_def)
  moreover have "map (\<lambda>b. - revenue_key b) (arBids r) = map (\<lambda>b. - revenue_key b) (arBids r')"
  proof -
    have "sort (map (\<lambda>b. - revenue_key b) (arBids r')) = map (\<lambda>b. - revenue_key b) (arBids r)"
      using m s(1) by (intro properties_for_sort) simp_all
    then show ?thesis using s(2) by (simp add: sorted_sort_id)
  qed
  ultimately have "arBids r = arBids r'" by (rule map_inj_on [rotated])
  then show ?thesis using k by (auto simp: ranking_def)
qed

theorem RankBids_no_ties_witness:
  "RankBids [ex_bid 1 5, ex_bid 2 9] None (fy_swaps (\<lambda>i. 0))
     = RankBids [ex_bid 2 9, ex_bid 1 5] None (fy_swaps (\<lambda>i. i))"
proof -
  let ?r = "\<lparr>arBids = [ex_bid 2 9, ex_bid 1 5], Winner = Some (ex_bid 2 9)\<rparr>"
  have a: "RankBids [ex_bid 1 5, ex_bid 2 9] None (fy_swaps (\<lambda>i. 0)) = Some ?r"
    by (simp add: RankBids_eval numeral_2_eq_2)
  obtain r' where b: "RankBids [ex_bid 2 9, ex_bid 1 5] None (fy_swaps (\<lambda>i. i)) = Some r'"
    by (simp add: RankBids_eval numeral_2_eq_2)
  have "?r = r'"
    by (rule RankBids_no_ties [OF _ _ a b]) (simp_all add: ex_bid_def)
  then show ?thesis using a b by simp
qed

text \<open>
  C11: ties break uniformly: of two bids with the same revenue, each wins under the same number
  of the shuffle's draws.
\<close>

theorem RankBids_uniform_ties:
  assumes "distinct bids" and "a \<in> set bids" and "b \<in> set bids" and "Revenue a = Revenue b"
  shows "card (winning_draws bids a) = card (winning_draws bids b)"
  using assms by (intro card_winning_draws) (auto simp: revenue_key_def)

theorem RankBids_uniform_ties_witness:
  "card (winning_draws [ex_bid 1 5, ex_bid 2 5, ex_bid 3 1] (ex_bid 1 5))
     = card (winning_draws [ex_bid 1 5, ex_bid 2 5, ex_bid 3 1] (ex_bid 2 5))"
  by (rule RankBids_uniform_ties) (simp_all add: ex_bid_def)

text \<open>
  The insertion sort of \<open>RankBids\<close> is the one stable sort by descending revenue, the
  library's \<open>sort_key\<close> on the negated revenue.
\<close>

lemma SortStableFunc_sort_key:
  "SortStableFunc by_revenue_desc xs = sort_key (\<lambda>b. - sint (Revenue b)) xs"
  using go_sort.srt_eq_sort_key [of xs] by (simp add: revenue_key_def [abs_def])

end
