(* ===== verification/Enclave_Arbiter.thy ===== *)
theory Enclave_Arbiter
  imports Enclave_Crypto Core_Ranking
begin

section \<open>enclave/arbiter.go: resolving revenues and arbitrating\<close>

text \<open>
  The arbiter with its key, the resolution of a bid to a revenue (the sealed price when it
  opens, the cleartext otherwise), what every sealed payload counts as, and the arbitration:
  resolve every bid once, then rank.
\<close>

record Arbiter =
  arbPriv :: "rsa_PrivateKey option"

definition NewArbiter :: "rsa_PrivateKey option \<Rightarrow> Arbiter \<times> goerr option" where
  "NewArbiter priv =
     (let a = \<lparr>arbPriv = None\<rparr>
      in if priv = None then (a, Some ErrNoKey) else (a\<lparr>arbPriv := priv\<rparr>, None))"

definition resolveRevenue :: "(int \<Rightarrow> bool) \<Rightarrow> crypto \<Rightarrow> Arbiter \<Rightarrow> Bid \<Rightarrow> Currency \<times> bool" where
  "resolveRevenue print C a b =
     (case decryptCPMDollars print C (arbPriv a) (EncryptedCPMDollars b) of
        Inr revenue \<Rightarrow> (CDollars (DollarsPerMille_Dollars revenue), True)
      | Inl err \<Rightarrow>
          (case CleartextRevenue b of
             None \<Rightarrow> (CMicroDollars ZeroDollars, False)
           | Some c \<Rightarrow> (c, False)))"

text \<open>The body of the loop: the entry for one bid.\<close>

definition resolve_bid ::
  "(int \<Rightarrow> bool) \<Rightarrow> (f64 \<Rightarrow> int64) \<Rightarrow> crypto \<Rightarrow> Arbiter \<Rightarrow> Bid \<Rightarrow> ArbiterBid" where
  "resolve_bid print oor C a b =
     (let (revenue, decrypted) = resolveRevenue print C a b
      in \<lparr>abBid = Some b, Revenue = AsMicros oor revenue, Decrypted = decrypted\<rparr>)"

definition Arbitrate ::
  "(int \<Rightarrow> bool) \<Rightarrow> (f64 \<Rightarrow> int64) \<Rightarrow> crypto \<Rightarrow> Arbiter \<Rightarrow> Bid list \<Rightarrow> RandSource option \<Rightarrow> RandSource
     \<Rightarrow> ArbitrateResponse option" where
  "Arbitrate print oor C a bids randSource mathrand =
     RankBids (map (resolve_bid print oor C a) bids) randSource mathrand"

subsection \<open>The interface of a resolution\<close>

text \<open>
  What the arbitration needs of a resolution: each entry points to the bid it came from.
  Then a ranking of the entries speaks of the bids: none is lost, invented or repeated.
\<close>

locale resolution =
  fixes resolve :: "Bid \<Rightarrow> ArbiterBid"
  assumes resolve_bid: "abBid (resolve b) = Some b"
begin

lemma ranked_bids:
  assumes "ranking (map resolve bids) resp"
  shows "image_mset abBid (mset (arBids resp)) = image_mset Some (mset bids)"
proof -
  have "image_mset abBid (mset (arBids resp)) = image_mset (\<lambda>b. abBid (resolve b)) (mset bids)"
    using assms by (simp add: ranking_def image_mset.compositionality comp_def)
  then show ?thesis by (simp add: resolve_bid)
qed

lemma ranked_entry:
  assumes "ranking (map resolve bids) resp" and "ab \<in> set (arBids resp)"
  obtains b where "b \<in> set bids" and "ab = resolve b"
proof -
  have "set (arBids resp) = set (map resolve bids)"
    using assms(1) mset_eq_setD unfolding ranking_def by blast
  then show ?thesis using assms(2) that by auto
qed

lemma ranked_all_bids:
  assumes "ranking (map resolve bids) resp" and "b \<in> set bids"
  shows "resolve b \<in> set (arBids resp)"
proof -
  have "set (arBids resp) = set (map resolve bids)"
    using assms(1) mset_eq_setD unfolding ranking_def by blast
  then show ?thesis using assms(2) by simp
qed

lemma winner_best:
  assumes "ranking (map resolve bids) resp" and "Winner resp = Some w"
  obtains b where "b \<in> set bids" and "w = resolve b"
    and "\<And>b'. b' \<in> set bids \<Longrightarrow> sint (Revenue (resolve b')) \<le> sint (Revenue (resolve b))"
proof -
  have "arBids resp \<noteq> []" using assms unfolding ranking_def by auto
  then have "bids \<noteq> []" using assms(1) unfolding ranking_def by auto
  then obtain b0 where "b0 \<in> set bids" by (cases bids) auto
  then have "w \<in> set (map resolve bids)"
    using ranking_head_max [OF assms, of "resolve b0"] by simp
  then obtain b where b: "b \<in> set bids" "w = resolve b" by auto
  show ?thesis
  proof (rule that [OF b])
    fix b' assume "b' \<in> set bids"
    then show "sint (Revenue (resolve b')) \<le> sint (Revenue (resolve b))"
      using ranking_head_max [OF assms, of "resolve b'"] by (simp add: b revenue_key_def)
  qed
qed

end

interpretation arbiter: resolution "resolve_bid print oor C a"
  by unfold_locales (simp add: resolve_bid_def split: prod.splits)

lemma Arbitrate_ranking:
  "Arbitrate print oor C a bids src m = Some resp \<Longrightarrow> ranking (map (resolve_bid print oor C a) bids) resp"
  unfolding Arbitrate_def by (rule RankBids_ranking)

lemma Arbitrate_math_rand: "\<exists>resp. Arbitrate print oor C a bids None (rand_Shuffle v) = Some resp"
  unfolding Arbitrate_def by (rule RankBids_math_rand)

lemma resolve_decrypted:
  "decryptCPMDollars print C (arbPriv a) (EncryptedCPMDollars b) = Inr p \<Longrightarrow>
     resolve_bid print oor C a b = \<lparr>abBid = Some b, Revenue = cpm_AsMicros oor p, Decrypted = True\<rparr>"
  by (simp add: resolve_bid_def resolveRevenue_def cpm_AsMicros_def)

subsection \<open>Properties of the arbiter\<close>

text \<open>
  When a sealed price opens, and to what; and the revenue a bid falls back to.
\<close>

definition opens_price :: "crypto \<Rightarrow> Arbiter \<Rightarrow> Bid \<Rightarrow> DollarsPerMille \<Rightarrow> bool" where
  "opens_price C a b p \<longleftrightarrow>
     (\<exists>k c plaintext. arbPriv a = Some k \<and> EncryptedCPMDollars b = Some c
        \<and> opens_to C k c plaintext \<and> Unmarshal_PricePayload plaintext = Inr \<lparr>Price = p\<rparr>)"

definition cleartext_or_zero :: "Bid \<Rightarrow> Currency" where
  "cleartext_or_zero b = (case CleartextRevenue b of Some r \<Rightarrow> r | None \<Rightarrow> CMicroDollars ZeroDollars)"

lemma decrypt_opens_price:
  "decryptCPMDollars print C (arbPriv a) (EncryptedCPMDollars b) = Inr p \<longleftrightarrow> opens_price C a b p"
  by (simp add: opens_price_def decrypt_Inr_iff)

text \<open>
  C19: a bid whose sealed price opens to a price p (the arbiter has a key, the bid a sealed price,
  and the payload inside decodes to p) resolves to p by the thousand, flagged as decrypted,
  whatever its cleartext revenue; any other bid resolves to its cleartext revenue, or to zero
  microdollars when it has none, and is not flagged.
\<close>

theorem resolveRevenue_spec:
  "resolveRevenue print C a b = (revenue, decrypted) \<longleftrightarrow>
     (\<exists>p. opens_price C a b p \<and> revenue = CDollars (DollarsPerMille_Dollars p) \<and> decrypted)
     \<or> ((\<nexists>p. opens_price C a b p) \<and> revenue = cleartext_or_zero b \<and> \<not> decrypted)"
proof (cases "decryptCPMDollars print C (arbPriv a) (EncryptedCPMDollars b)")
  case (Inl e)
  then have "\<nexists>p. opens_price C a b p" unfolding decrypt_opens_price [of print, symmetric] by simp
  then show ?thesis by (auto simp: resolveRevenue_def Inl cleartext_or_zero_def split: option.splits)
next
  case (Inr p)
  then have "opens_price C a b q \<longleftrightarrow> q = p" for q unfolding decrypt_opens_price [of print, symmetric] by auto
  then show ?thesis by (auto simp: resolveRevenue_def Inr)
qed



definition ex_priv :: rsa_PrivateKey where
  "ex_priv = \<lparr>rsa_Public = \<lparr>rsa_N = 33, rsa_E = 3\<rparr>, rsa_D = 7, rsa_Primes = [3, 11]\<rparr>"


text \<open>
  An arbiter made without a key reports \<open>ErrNoKey\<close> and is usable for cleartext-only bids: it
  resolves every bid to its cleartext revenue.  One made with a key reports nothing.
\<close>

lemma NewArbiter_without_key:
  "snd (NewArbiter priv) = (if priv = None then Some ErrNoKey else None)
   \<and> arbPriv (fst (NewArbiter priv)) = priv
   \<and> resolveRevenue print C (fst (NewArbiter None)) b
       = (case CleartextRevenue b of Some r \<Rightarrow> r | None \<Rightarrow> CMicroDollars ZeroDollars, False)"
  by (simp add: NewArbiter_def Let_def resolveRevenue_def decryptCPMDollars_def split: option.split)

text \<open>
  C20: an arbitration with \<open>math/rand\<close> never panics; its list holds every input bid exactly once, each
  with its resolved revenue and flag, in descending order of that revenue, and the winner is
  the first of the list (none when there are no bids).
\<close>

theorem Arbitrate_ranks_all:
  "\<exists>resp. Arbitrate print oor C a bids None (rand_Shuffle v) = Some resp
     \<and> mset (arBids resp) = image_mset
          (\<lambda>b. \<lparr>abBid = Some b, Revenue = AsMicros oor (fst (resolveRevenue print C a b)),
                Decrypted = snd (resolveRevenue print C a b)\<rparr>) (mset bids)
     \<and> sorted_wrt (\<lambda>x y. sint (Revenue y) \<le> sint (Revenue x)) (arBids resp)
     \<and> Winner resp = (case arBids resp of [] \<Rightarrow> None | w # _ \<Rightarrow> Some w)"
proof -
  obtain resp where r: "Arbitrate print oor C a bids None (rand_Shuffle v) = Some resp"
    using Arbitrate_math_rand by blast
  then show ?thesis
    using Arbitrate_ranking [OF r] by (simp add: ranking_def resolve_bid_def [abs_def] case_prod_beta revenue_key_def)
qed

text \<open>
  C18: when every bid is sealed for the arbiter's key, the winner is the bid with the highest
  sealed CPM, up to the resolution of the microdollar conversion: no other bid's price
  exceeds the winner's by more than 0.2 cents plus the float64 error.
\<close>

theorem Arbitrate_sealed_winner:
  assumes "key_pair C pub priv" and "gcm_correct C"
    and "\<And>b. b \<in> set bids \<Longrightarrow> cpm_ok (price b)
      \<and> (\<exists>er w w'. EncryptedCPMDollars b = Some er \<and> SealCPMDollars C (Some pub) (price b) w = (Inr er, w'))"
    and "Arbitrate print oor C (fst (NewArbiter (Some priv))) bids src m = Some resp"
    and "Winner resp = Some win"
  shows "\<exists>b \<in> set bids. abBid win = Some b \<and> Decrypted win \<and> sint (Revenue win) = cpm_micros (val (price b))
    \<and> (\<forall>b' \<in> set bids. 1000 * val (price b') < 1000 * val (price b) + 2
          + (\<bar>val (price b)\<bar> + \<bar>val (price b')\<bar>) / 2 ^ 42)"
proof -
  let ?a = "fst (NewArbiter (Some priv))"
  have a: "arbPriv ?a = Some priv" by (simp add: NewArbiter_def Let_def)
  have res: "resolve_bid print oor C ?a b
      = \<lparr>abBid = Some b, Revenue = cpm_AsMicros oor (price b), Decrypted = True\<rparr>" if b: "b \<in> set bids" for b
  proof -
    obtain er w w' where er: "EncryptedCPMDollars b = Some er"
      "SealCPMDollars C (Some pub) (price b) w = (Inr er, w')" using assms(3) [OF b] by blast
    have "wf_f64 (price b)" using assms(3) [OF b] by (simp add: cpm_ok_def)
    then show ?thesis
      using decrypt_seal [OF assms(1,2) _ er(2)] by (intro resolve_decrypted) (simp add: a er(1))
  qed
  obtain b where b: "b \<in> set bids" "win = resolve_bid print oor C ?a b"
    and best: "\<And>b'. b' \<in> set bids \<Longrightarrow>
      sint (Revenue (resolve_bid print oor C ?a b')) \<le> sint (Revenue (resolve_bid print oor C ?a b))"
    using arbiter.winner_best [OF Arbitrate_ranking [OF assms(4)] assms(5)] by blast
  have micros: "sint (cpm_AsMicros oor (price b')) = cpm_micros (val (price b'))" if "b' \<in> set bids" for b'
    using assms(3) [OF that] by (simp add: cpm_AsMicros_val)
  have "1000 * val (price b') < 1000 * val (price b) + 2 + (\<bar>val (price b)\<bar> + \<bar>val (price b')\<bar>) / 2 ^ 42"
    if b': "b' \<in> set bids" for b'
  proof -
    have "cpm_micros (val (price b')) \<le> cpm_micros (val (price b))"
      using best [OF b'] by (simp add: res [OF b'] res [OF b(1)] micros b b')
    then show ?thesis
      using cpm_micros_error [of "val (price b)"] cpm_micros_error [of "val (price b')"]
      by (simp add: add_divide_distrib abs_if split: if_splits)
  qed
  then show ?thesis using b by (auto simp: res [OF b(1)] micros)
qed

theorem Arbitrate_sealed_winner_witness:
  "\<exists>er w' resp win. SealCPMDollars ex_crypto (Some (rsa_Public ex_priv)) (f64_of_int 2) ex_world = (Inr er, w')
    \<and> Arbitrate (\<lambda>_. False) (\<lambda>_. 0) ex_crypto (fst (NewArbiter (Some ex_priv)))
        [\<lparr>ID = 1, Source = ''a'', CleartextRevenue = None, EncryptedCPMDollars = Some er\<rparr>] None (rand_Shuffle (\<lambda>_. 0))
      = Some resp \<and> Winner resp = Some win \<and> Decrypted win"
proof -
  have "float_ok (f64_of_int 2)" by code_simp
  then obtain er w' where s: "SealCPMDollars ex_crypto (Some (rsa_Public ex_priv)) (f64_of_int 2) ex_world = (Inr er, w')"
    using SealCPMDollars_ok [of "f64_of_int 2" ex_world ex_crypto "rsa_Public ex_priv"]
    by (auto simp: ex_world_def ex_crypto_def)
  let ?bids = "[\<lparr>ID = 1, Source = ''a'', CleartextRevenue = None, EncryptedCPMDollars = Some er\<rparr>]"
  obtain resp where r: "Arbitrate (\<lambda>_. False) (\<lambda>_. 0) ex_crypto (fst (NewArbiter (Some ex_priv))) ?bids None
      (rand_Shuffle (\<lambda>_. 0)) = Some resp" using Arbitrate_math_rand by blast
  obtain win where w: "Winner resp = Some win"
    using Arbitrate_ranking [OF r] by (cases "arBids resp") (auto simp: ranking_def)
  have "cpm_ok (f64_of_int 2)"
    using f64_of_int_props(1) [of 2] f64_of_int_exact [of 2] by (simp add: cpm_ok_def)
  then have "Decrypted win"
    using Arbitrate_sealed_winner [OF ex_crypto_laws(1) [of "rsa_Public ex_priv"] ex_crypto_laws(2) _ r w,
        where price = "\<lambda>_. f64_of_int 2"] s
    by auto
  with s r w show ?thesis by blast
qed

end
