(* ===== verification/Enclave_Handlers.thy ===== *)
theory Enclave_Handlers
  imports Enclave_Attestation Enclave_Arbiter
begin

section \<open>enclave/handlers.go: the two request handlers\<close>

text \<open>
  The conversion of wire bids, the key handler and the arbitration handler, with what the
  arbitration response says and how the attested user data relates to it.
\<close>

text \<open>
  The packages and the platform the handlers run on: printable runes (\<open>%q\<close>), float
  conversions out of range, cryptography, uuid, the envelope and the JSON tags of openauction.
\<close>

record libs =
  lib_print :: "int \<Rightarrow> bool"
  lib_oor :: "f64 \<Rightarrow> int64"
  lib_crypto :: crypto
  lib_uuid :: uuid_pkg
  lib_cose :: cose_pkg
  lib_tags :: wire_tags

subsection \<open>Wire bids\<close>

definition wire_step ::
  "uuid_pkg \<Rightarrow> Bid list \<times> ExcludedBid list \<Rightarrow> WireBid \<Rightarrow> Bid list \<times> ExcludedBid list" where
  "wire_step U acc wb =
     (let (bids, excluded) = acc in
      case uuid_Parse U (wbID wb) of
        Inl err \<Rightarrow>
          (bids, excluded @ [\<lparr>exBidID = wbID wb, exReason = ExclusionReasonMalformedBidID\<rparr>])
      | Inr i \<Rightarrow>
          (bids @ [\<lparr>ID = i, Source = wbSource wb,
                     CleartextRevenue = Some (CMicroDollars (wbCleartextRevenue wb)),
                     EncryptedCPMDollars = wbEncryptedCPMDollars wb\<rparr>], excluded))"

definition wireBidsToCoreBids :: "uuid_pkg \<Rightarrow> WireBid list \<Rightarrow> Bid list \<times> ExcludedBid list" where
  "wireBidsToCoreBids U wire = foldl (wire_step U) ([], []) wire"

fun resolvedBids :: "uuid_pkg \<Rightarrow> ArbiterBid list \<Rightarrow> ResolvedBid list" where
  "resolvedBids U [] = []"
| "resolvedBids U (ab # ranked) =
     (case abBid ab of
        None \<Rightarrow> resolvedBids U ranked
      | Some b \<Rightarrow> \<lparr>rbID = uuid_String U (ID b), rbSource = Source b, rbRevenue = Revenue ab,
                   rbDecrypted = Decrypted ab\<rparr> # resolvedBids U ranked)"

subsection \<open>HandleKeyRequest\<close>

definition HandleKeyRequest ::
  "libs \<Rightarrow> EnclaveAttester option \<Rightarrow> KeyManager option \<Rightarrow> KeyResponse pio" where
  "HandleKeyRequest L attester km =
     (case km of
        None \<Rightarrow> lift_pio (Some (Inl (Errorf ''nil key manager'')))
      | Some km \<Rightarrow>
          bind_pio (wrap_pio ''export public key'' (lift_pio (PublicKeyPEM (lib_crypto L) km))) (\<lambda>pemStr.
          bind_pio (uuid_NewString (lib_uuid L)) (\<lambda>token.
          bind_pio (wrap_pio ''generate key attestation''
                     (GenerateKeyAttestation (lib_tags L) (lib_crypto L) attester (kmPublicKey km) token)) (\<lambda>cose.
          bind_pio (wrap_pio ''compress attestation'' (lift_pio (Some (CompressGzip (lib_cose L) cose)))) (\<lambda>gz.
          lift_pio (Some (Inr \<lparr>krKey = \<lparr>kwaPublicKey = pemStr, kwaAttestation = gz, kwaAuctionToken = token\<rparr>,
                              krType = ''key_response''\<rparr>)))))))"

subsection \<open>HandleArbitrationRequest\<close>

text \<open>\<open>RankBids\<close> shuffles once, and not at all when there are no bids.\<close>

definition shuffle_draws :: "nat \<Rightarrow> (nat \<Rightarrow> 32 word) io" where
  "shuffle_draws n w = (if n = 0 then (\<lambda>_. 0, w) else next_shuffle w)"

definition failure_response :: "string \<Rightarrow> clock_reading \<Rightarrow> EnclaveArbitrationResponse io" where
  "failure_response msg start w =
     (let (now, w) = time_Now w
      in (\<lparr>respType = ''arbitration_response'', respSuccess = False, respMessage = msg, respAttestation = [],
           respExcludedBids = [], respBids = [], respProcessingTimeMS = since_ms start now\<rparr>, w))"

text \<open>The end of the handler: the response to what the attestation returned.\<close>

definition attested_response ::
  "libs \<Rightarrow> clock_reading \<Rightarrow> nat \<Rightarrow> ArbitrateResponse \<Rightarrow> ExcludedBid list \<Rightarrow> AttestationCOSE result
     \<Rightarrow> EnclaveArbitrationResponse io" where
  "attested_response L start n resp excluded att w =
     (case att of
        Inl err \<Rightarrow> failure_response (''attestation failed: '' @ error_string err) start w
      | Inr cose \<Rightarrow>
          let (now, w) = time_Now w
          in (\<lparr>respType = ''arbitration_response'', respSuccess = True,
               respMessage = ''arbitrated '' @ dec_nat n @ '' bids'',
               respAttestation = EncodeBase64 (lib_cose L) cose,
               respExcludedBids = excluded,
               respBids = resolvedBids (lib_uuid L) (arBids resp),
               respProcessingTimeMS = since_ms start now\<rparr>, w))"

definition HandleArbitrationRequest ::
  "libs \<Rightarrow> EnclaveAttester option \<Rightarrow> KeyManager option \<Rightarrow> EnclaveArbitrationRequest
     \<Rightarrow> EnclaveArbitrationResponse option io" where
  "HandleArbitrationRequest L attester km req w =
     (let (start, w) = time_Now w in
      case km of
        None \<Rightarrow> map_prod Some id (failure_response ''nil key manager'' start w)
      | Some km \<Rightarrow>
          let arb = fst (NewArbiter (PrivateKey km));
              (coreBids, excluded) = wireBidsToCoreBids (lib_uuid L) (reqBids req);
              (draws, w) = shuffle_draws (length coreBids) w
          in case Arbitrate (lib_print L) (lib_oor L) (lib_crypto L) arb coreBids None (rand_Shuffle draws) of
               None \<Rightarrow> (None, w)
             | Some resp \<Rightarrow>
                 let (cose, w) = GenerateArbitrationAttestation (lib_uuid L) attester req
                                   (arBids resp) (Winner resp) excluded w
                 in map_prod Some id
                      (attested_response L start (length coreBids) resp excluded cose w))"

subsection \<open>Wire bids as two filters\<close>

definition parses :: "uuid_pkg \<Rightarrow> WireBid \<Rightarrow> bool" where
  "parses U wb \<longleftrightarrow> is_ok (uuid_Parse U (wbID wb))"

definition core_bid :: "uuid_pkg \<Rightarrow> WireBid \<Rightarrow> Bid" where
  "core_bid U wb =
     \<lparr>ID = projr (uuid_Parse U (wbID wb)), Source = wbSource wb,
      CleartextRevenue = Some (CMicroDollars (wbCleartextRevenue wb)),
      EncryptedCPMDollars = wbEncryptedCPMDollars wb\<rparr>"

definition malformed :: "WireBid \<Rightarrow> ExcludedBid" where
  "malformed wb = \<lparr>exBidID = wbID wb, exReason = ExclusionReasonMalformedBidID\<rparr>"

lemma wire_step_eq:
  "wire_step U (bs, es) wb =
     (if parses U wb then (bs @ [core_bid U wb], es) else (bs, es @ [malformed wb]))"
  by (cases "uuid_Parse U (wbID wb)") (simp_all add: wire_step_def parses_def core_bid_def malformed_def)

lemma wire_fold:
  "foldl (wire_step U) (bs, es) wire =
     (bs @ map (core_bid U) (filter (parses U) wire), es @ map malformed (filter (\<lambda>wb. \<not> parses U wb) wire))"
  by (induction wire arbitrary: bs es) (simp_all add: wire_step_eq)

lemma wireBids_filters:
  "wireBidsToCoreBids U wire =
     (map (core_bid U) (filter (parses U) wire), map malformed (filter (\<lambda>wb. \<not> parses U wb) wire))"
  by (simp add: wireBidsToCoreBids_def wire_fold)

subsection \<open>The response and the ranking\<close>

definition resolved_bid_of :: "uuid_pkg \<Rightarrow> ArbiterBid \<Rightarrow> ResolvedBid" where
  "resolved_bid_of U ab =
     \<lparr>rbID = uuid_String U (ID (the (abBid ab))), rbSource = Source (the (abBid ab)),
      rbRevenue = Revenue ab, rbDecrypted = Decrypted ab\<rparr>"

lemma resolvedBids_map:
  "(\<And>ab. ab \<in> set rs \<Longrightarrow> abBid ab \<noteq> None) \<Longrightarrow> resolvedBids U rs = map (resolved_bid_of U) rs"
  by (induction rs) (auto simp: resolved_bid_of_def split: option.splits)

text \<open>The ranking that answers a request, with the arbiter of a key manager.\<close>

definition request_ranking ::
  "libs \<Rightarrow> KeyManager \<Rightarrow> EnclaveArbitrationRequest \<Rightarrow> ArbitrateResponse \<Rightarrow> bool" where
  "request_ranking L km req resp \<longleftrightarrow>
     ranking (map (resolve_bid (lib_print L) (lib_oor L) (lib_crypto L) \<lparr>arbPriv = PrivateKey km\<rparr>)
               (map (core_bid (lib_uuid L)) (filter (parses (lib_uuid L)) (reqBids req)))) resp"

lemma NewArbiter_fst: "fst (NewArbiter priv) = \<lparr>arbPriv = priv\<rparr>"
  by (simp add: NewArbiter_def Let_def)

lemma handler_attests:
  obtains resp w1 cose w2 where "request_ranking L km req resp" and "clock w1 = clock w" and "entropy w1 = entropy w"
    and "GenerateArbitrationAttestation (lib_uuid L) attester req (arBids resp) (Winner resp)
           (map malformed (filter (\<lambda>wb. \<not> parses (lib_uuid L) wb) (reqBids req))) w1 = (cose, w2)"
    and "HandleArbitrationRequest L attester (Some km) req w =
       map_prod Some id (attested_response L (clock w (clock_reads w))
         (length (filter (parses (lib_uuid L)) (reqBids req))) resp
         (map malformed (filter (\<lambda>wb. \<not> parses (lib_uuid L) wb) (reqBids req))) cose w2)"
proof -
  let ?bids = "map (core_bid (lib_uuid L)) (filter (parses (lib_uuid L)) (reqBids req))"
  let ?ex = "map malformed (filter (\<lambda>wb. \<not> parses (lib_uuid L) wb) (reqBids req))"
  let ?a = "\<lparr>arbPriv = PrivateKey km\<rparr>"
  obtain draws w1 where d: "shuffle_draws (length ?bids) (snd (time_Now w)) = (draws, w1)" by fastforce
  obtain resp where r: "Arbitrate (lib_print L) (lib_oor L) (lib_crypto L) ?a ?bids None (rand_Shuffle draws) = Some resp"
    using Arbitrate_math_rand by blast
  obtain cose w2 where g: "GenerateArbitrationAttestation (lib_uuid L) attester req (arBids resp) (Winner resp) ?ex w1 = (cose, w2)"
    by fastforce
  have "request_ranking L km req resp"
    using Arbitrate_ranking [OF r] by (simp add: request_ranking_def)
  moreover have "clock w1 = clock w" "entropy w1 = entropy w"
    using d by (auto simp: shuffle_draws_def next_shuffle_def time_Now_def split: if_splits)
  ultimately show ?thesis
    using d r g
    by (intro that [of resp w1 cose w2])
      (auto simp: HandleArbitrationRequest_def wireBids_filters NewArbiter_fst time_Now_def Let_def
        split: prod.splits)
qed

lemma handler_no_panic: "\<exists>r w'. HandleArbitrationRequest L attester km req w = (Some r, w')"
proof (cases km)
  case None
  then show ?thesis
    by (simp add: HandleArbitrationRequest_def failure_response_def Let_def split: prod.splits)
next
  case (Some k)
  show ?thesis
    unfolding Some by (rule handler_attests [of L k req w attester]) (auto simp: map_prod_def split: prod.splits)
qed

lemma request_ranking_entry:
  assumes "request_ranking L km req resp" and "ab \<in> set (arBids resp)"
  obtains wb where "wb \<in> set (reqBids req)" "parses (lib_uuid L) wb"
    "ab = resolve_bid (lib_print L) (lib_oor L) (lib_crypto L) \<lparr>arbPriv = PrivateKey km\<rparr> (core_bid (lib_uuid L) wb)"
proof -
  obtain b where "b \<in> set (map (core_bid (lib_uuid L)) (filter (parses (lib_uuid L)) (reqBids req)))"
    "ab = resolve_bid (lib_print L) (lib_oor L) (lib_crypto L) \<lparr>arbPriv = PrivateKey km\<rparr> b"
    using arbiter.ranked_entry [OF assms(1) [unfolded request_ranking_def] assms(2)] by blast
  then show ?thesis using that by auto
qed

lemma request_ranking_bid:
  "request_ranking L km req resp \<Longrightarrow> ab \<in> set (arBids resp) \<Longrightarrow> abBid ab \<noteq> None"
  by (erule request_ranking_entry) (auto simp: arbiter.resolve_bid)

text \<open>What a successful response is made of.\<close>

lemma handler_success:
  assumes h: "HandleArbitrationRequest L attester km req w = (Some r, w')" and "respSuccess r"
  obtains k resp att b1 b2 i s nonce cose where "km = Some k" "request_ranking L k req resp"
    "attester = Some att" "length b1 = 32" "length b2 = 32"
    "Marshal_UserData (attestation_user_data (lib_uuid L) req (arBids resp) (Winner resp)
       (respExcludedBids r) (hex_EncodeToString b1) (hex_EncodeToString b2) (wall (clock w i))) = Inr s"
    "att \<lparr>optUserData = s, optNonce = nonce\<rparr> = Inr cose"
    "respAttestation r = EncodeBase64 (lib_cose L) cose"
    "respExcludedBids r = map malformed (filter (\<lambda>wb. \<not> parses (lib_uuid L) wb) (reqBids req))"
    "respBids r = map (resolved_bid_of (lib_uuid L)) (arBids resp)"
    "respType r = ''arbitration_response''"
    "respMessage r = ''arbitrated '' @ dec_nat (length (filter (parses (lib_uuid L)) (reqBids req))) @ '' bids''"
proof (cases km)
  case None
  then show ?thesis
    using assms by (auto simp: HandleArbitrationRequest_def failure_response_def Let_def split: prod.splits)
next
  case (Some k)
  show ?thesis
  proof (rule handler_attests [of L k req w attester])
    fix resp w1 att w2
    assume rk: "request_ranking L k req resp" and ck: "clock w1 = clock w"
      and g: "GenerateArbitrationAttestation (lib_uuid L) attester req (arBids resp) (Winner resp)
           (map malformed (filter (\<lambda>wb. \<not> parses (lib_uuid L) wb) (reqBids req))) w1 = (att, w2)"
      and e: "HandleArbitrationRequest L attester (Some k) req w =
       map_prod Some id (attested_response L (clock w (clock_reads w))
         (length (filter (parses (lib_uuid L)) (reqBids req))) resp
         (map malformed (filter (\<lambda>wb. \<not> parses (lib_uuid L) wb) (reqBids req))) att w2)"
    have rb: "resolvedBids (lib_uuid L) (arBids resp) = map (resolved_bid_of (lib_uuid L)) (arBids resp)"
      by (intro resolvedBids_map request_ranking_bid [OF rk])
    have r: "r = fst (attested_response L (clock w (clock_reads w))
         (length (filter (parses (lib_uuid L)) (reqBids req))) resp
         (map malformed (filter (\<lambda>wb. \<not> parses (lib_uuid L) wb) (reqBids req))) att w2)"
      using h e Some by (auto simp: map_prod_def split: prod.splits)
    then obtain cose where a: "att = Inr cose"
      using assms(2) by (cases att) (auto simp: attested_response_def failure_response_def split: prod.splits)
    show ?thesis
      using g unfolding a
      by (rule GenerateArbitrationAttestation_Inr)
        (use that [OF Some rk] r a rb ck in
          \<open>auto simp: attested_response_def time_Now_def split: prod.splits\<close>)
  qed
qed

text \<open>The PEM text of a public key is valid UTF-8 (it is ASCII).\<close>

definition pem_ascii :: "crypto \<Rightarrow> bool" where
  "pem_ascii C \<longleftrightarrow> (\<forall>pub der. MarshalPKIX C pub = Inr der \<longrightarrow>
     ValidString (pem_Encode C \<lparr>pem_Type = ''PUBLIC KEY'', pem_Bytes = der\<rparr>))"

lemma pem_asciiD:
  "pem_ascii C \<Longrightarrow> MarshalPKIX C pub = Inr der \<Longrightarrow>
     ValidString (pem_Encode C \<lparr>pem_Type = ''PUBLIC KEY'', pem_Bytes = der\<rparr>)"
  by (simp add: pem_ascii_def)

lemma key_request_Inr:
  assumes "HandleKeyRequest L attester km w = (Some (Inr resp), w')"
  obtains k att pub der i b s cose where "km = Some k" "attester = Some att" "kmPublicKey k = Some pub"
    "MarshalPKIX (lib_crypto L) pub = Inr der"
    "kwaPublicKey (krKey resp) = pem_Encode (lib_crypto L) \<lparr>pem_Type = ''PUBLIC KEY'', pem_Bytes = der\<rparr>"
    "kwaAuctionToken (krKey resp) = uuid_String (lib_uuid L) i" "length b = 32"
    "s = json_print (enc_KeyUserData (lib_tags L)
       \<lparr>akKey = \<lparr>KeyAlgorithm = ''RSA-2048'', PublicKey = kwaPublicKey (krKey resp)\<rparr>,
        akAuctionToken = kwaAuctionToken (krKey resp)\<rparr>)"
    "att \<lparr>optUserData = s, optNonce = hex_EncodeToString b\<rparr> = Inr cose"
    "CompressGzip (lib_cose L) cose = Inr (kwaAttestation (krKey resp))"
proof (cases km)
  case None
  then show ?thesis using assms by (simp add: HandleKeyRequest_def result_simps)
next
  case (Some k)
  obtain pem w1 i cose w2 where h: "PublicKeyPEM (lib_crypto L) k = Some (Inr pem)"
    "uuid_NewString (lib_uuid L) w = (Some (Inr i), w1)"
    "GenerateKeyAttestation (lib_tags L) (lib_crypto L) attester (kmPublicKey k) i w1 = (Some (Inr cose), w2)"
    "CompressGzip (lib_cose L) cose = Inr (kwaAttestation (krKey resp))"
    "kwaPublicKey (krKey resp) = pem" "kwaAuctionToken (krKey resp) = i"
    using assms by (auto simp: HandleKeyRequest_def Some result_simps)
  obtain u where u: "i = uuid_String (lib_uuid L) u"
    using h(2) by (auto simp: uuid_NewString_def split: prod.splits sum.splits)
  obtain pub der where p: "kmPublicKey k = Some pub" "MarshalPKIX (lib_crypto L) pub = Inr der"
    "pem = pem_Encode (lib_crypto L) \<lparr>pem_Type = ''PUBLIC KEY'', pem_Bytes = der\<rparr>"
    using h(1) by (auto simp: PublicKeyPEM_def publicKeyToPEM_def result_simps split: option.splits)
  obtain att where att: "attester = Some att"
    using h(3) by (auto simp: GenerateKeyAttestation_def result_simps split: option.splits)
  obtain nonce w3 where n: "generateNonce w1 = (Inr nonce, w3)"
    "att \<lparr>optUserData = json_print (enc_KeyUserData (lib_tags L)
       \<lparr>akKey = \<lparr>KeyAlgorithm = ''RSA-2048'', PublicKey = pem\<rparr>, akAuctionToken = i\<rparr>),
       optNonce = nonce\<rparr> = Inr cose"
    using h(3) p by (auto simp: GenerateKeyAttestation_def att publicKeyToPEM_def result_simps Let_def)
  then show ?thesis
    using that [OF Some att p(1,2)] generateNonce_Inr [OF n(1)] h u p(3) by auto
qed

subsection \<open>When the handler succeeds\<close>

text \<open>
  The world that does not fail: entropy at every read, a clock within the years JSON can
  write.
\<close>

definition sound_world :: "world \<Rightarrow> bool" where
  "sound_world w \<longleftrightarrow> (\<forall>i. \<exists>f. entropy w i = Inr f) \<and> (\<forall>i. time_ok (wall (clock w i)))"

definition always_attests :: "EnclaveAttester \<Rightarrow> bool" where
  "always_attests att \<longleftrightarrow> (\<forall>opts. is_ok (att opts))"

lemma generateNonce_ok:
  assumes "sound_world w"
  shows "\<exists>s. generateNonce w = (Inr s, w\<lparr>entropy_reads := Suc (entropy_reads w)\<rparr>)"
proof -
  obtain f where "entropy w (entropy_reads w) = Inr f" using assms unfolding sound_world_def by blast
  then show ?thesis
    by (simp add: generateNonce_def bind_io_def wrap_io_def rand_Read_def lift_io_def)
qed

lemma GenerateArbitrationAttestation_ok:
  assumes w: "sound_world w" and att: "always_attests att"
  shows "\<exists>cose w'. GenerateArbitrationAttestation U (Some att) req resolved winner excluded w = (Inr cose, w')"
proof -
  let ?w1 = "w\<lparr>entropy_reads := Suc (entropy_reads w)\<rparr>"
  let ?w2 = "?w1\<lparr>entropy_reads := Suc (entropy_reads ?w1)\<rparr>"
  let ?now = "clock ?w2 (clock_reads ?w2)" and ?w3 = "?w2\<lparr>clock_reads := Suc (clock_reads ?w2)\<rparr>"
  have sw: "sound_world ?w1" "sound_world ?w2" "sound_world ?w3"
    using w by (simp_all add: sound_world_def)
  obtain n1 where n1: "generateNonce w = (Inr n1, ?w1)" using generateNonce_ok [OF w] by blast
  obtain n2 where n2: "generateNonce ?w1 = (Inr n2, ?w2)" using generateNonce_ok [OF sw(1)] by blast
  obtain n3 where n3: "generateNonce ?w3 = (Inr n3, ?w3\<lparr>entropy_reads := Suc (entropy_reads ?w3)\<rparr>)"
    using generateNonce_ok [OF sw(3)] by blast
  have "is_ok (time_text (wall ?now))" using w by (simp add: sound_world_def time_ok_def)
  then obtain s where s: "Marshal_UserData (attestation_user_data U req resolved winner excluded n1 n2 (wall ?now)) = Inr s"
    by (auto simp: Marshal_UserData_def attestation_user_data_def is_ok_iff)
  obtain cose where c: "att \<lparr>optUserData = s, optNonce = n3\<rparr> = Inr cose" using att by (auto simp: always_attests_def is_ok_iff)
  have "GenerateArbitrationAttestation U (Some att) req resolved winner excluded w
      = (Inr cose, ?w3\<lparr>entropy_reads := Suc (entropy_reads ?w3)\<rparr>)"
    using n1 n2 n3 s c
    by (simp add: GenerateArbitrationAttestation_def bind_io_def wrap_io_def lift_io_def time_Now_def)
  then show ?thesis by blast
qed

lemma handler_ok:
  assumes w: "sound_world w" and att: "always_attests att"
  shows "\<exists>r w'. HandleArbitrationRequest L (Some att) (Some km) req w = (Some r, w') \<and> respSuccess r"
proof (rule handler_attests [of L km req w "Some att"])
  fix resp w1 cose w2
  assume "clock w1 = clock w" "entropy w1 = entropy w"
    and g: "GenerateArbitrationAttestation (lib_uuid L) (Some att) req (arBids resp) (Winner resp)
           (map malformed (filter (\<lambda>wb. \<not> parses (lib_uuid L) wb) (reqBids req))) w1 = (cose, w2)"
    and e: "HandleArbitrationRequest L (Some att) (Some km) req w =
       map_prod Some id (attested_response L (clock w (clock_reads w))
         (length (filter (parses (lib_uuid L)) (reqBids req))) resp
         (map malformed (filter (\<lambda>wb. \<not> parses (lib_uuid L) wb) (reqBids req))) cose w2)"
  then have "sound_world w1" using w by (simp add: sound_world_def)
  then obtain c w3 where "GenerateArbitrationAttestation (lib_uuid L) (Some att) req (arBids resp) (Winner resp)
           (map malformed (filter (\<lambda>wb. \<not> parses (lib_uuid L) wb) (reqBids req))) w1 = (Inr c, w3)"
    using GenerateArbitrationAttestation_ok [OF _ att] by blast
  then have "cose = Inr c" using g by simp
  then show ?thesis unfolding e by (simp add: attested_response_def time_Now_def Let_def)
qed

subsection \<open>A concrete enclave\<close>

definition ex_libs :: libs where
  "ex_libs = \<lparr>lib_print = (\<lambda>_. False), lib_oor = (\<lambda>_. 0), lib_crypto = ex_crypto, lib_uuid = ex_uuid,
              lib_cose = ex_cose, lib_tags = ex_tags\<rparr>"

definition ex_km :: KeyManager where
  "ex_km = \<lparr>privateKey = Some ex_priv, kmPublicKey = Some (rsa_Public ex_priv)\<rparr>"

definition ex_req :: EnclaveArbitrationRequest where
  "ex_req = \<lparr>reqType = ''arbitration_request'', reqRequestID = ''req-1'',
     reqBids = [\<lparr>wbID = ''7'', wbSource = ''a'', wbCleartextRevenue = 100, wbEncryptedCPMDollars = None\<rparr>,
                \<lparr>wbID = ''x'', wbSource = ''b'', wbCleartextRevenue = 200, wbEncryptedCPMDollars = None\<rparr>],
     reqTimestamp = time_zero\<rparr>"

lemma ex_sound_world: "sound_world ex_world"
proof -
  have "time_ok time_zero" by code_simp
  then show ?thesis by (simp add: sound_world_def ex_world_def time_zero_def)
qed

lemma ex_always_attests: "always_attests ex_attester"
  by (simp add: always_attests_def ex_attester_def)

lemma ex_handler:
  obtains r w' where
    "HandleArbitrationRequest ex_libs (Some ex_attester) (Some ex_km) ex_req ex_world = (Some r, w')"
    "respSuccess r"
  using handler_ok [OF ex_sound_world ex_always_attests, of ex_libs ex_km ex_req] by blast

lemma attested_user_data:
  assumes "uuid_ok (lib_uuid L)" and "ValidString (reqRequestID req)"
    and "list_all (\<lambda>wb. ValidString (wbID wb)) (reqBids req)"
    and "\<And>i. time_ok (wall (clock w i))"
    and "HandleArbitrationRequest L attester km req w = (Some r, w')" and "respSuccess r"
  shows "\<exists>att s nonce cose ud. attester = Some att \<and> att \<lparr>optUserData = s, optNonce = nonce\<rparr> = Inr cose
    \<and> respAttestation r = EncodeBase64 (lib_cose L) cose
    \<and> s \<noteq> [] \<and> json_Unmarshal dec_UserData s zero_UserData = Inr ud
    \<and> udRequestID ud = reqRequestID req
    \<and> udBidHashes ud = map (\<lambda>b. ComputeBidHash (rbID b) (rbRevenue b) (udBidHashNonce ud)) (respBids r)
    \<and> udWinner ud = (case respBids r of [] \<Rightarrow> None | b # _ \<Rightarrow> Some \<lparr>wsID = rbID b, wsRevenue = rbRevenue b\<rparr>)
    \<and> udExcludedBids ud = respExcludedBids r
    \<and> udRequestHash ud = ComputeRequestHash (reqRequestID req) (udRequestNonce ud)
    \<and> length (udBidHashNonce ud) = 64 \<and> length (udRequestNonce ud) = 64"
proof (rule handler_success [OF assms(5,6)])
  fix k resp att b1 b2 i s nonce cose
  assume rk: "request_ranking L k req resp" and att: "attester = Some att"
    "att \<lparr>optUserData = s, optNonce = nonce\<rparr> = Inr cose" "respAttestation r = EncodeBase64 (lib_cose L) cose"
    and l: "length b1 = 32" "length b2 = 32"
    and s: "Marshal_UserData (attestation_user_data (lib_uuid L) req (arBids resp) (Winner resp)
       (respExcludedBids r) (hex_EncodeToString b1) (hex_EncodeToString b2) (wall (clock w i))) = Inr s"
    and ex: "respExcludedBids r = map malformed (filter (\<lambda>wb. \<not> parses (lib_uuid L) wb) (reqBids req))"
    and rb: "respBids r = map (resolved_bid_of (lib_uuid L)) (arBids resp)"
  let ?ud = "attestation_user_data (lib_uuid L) req (arBids resp) (Winner resp)
       (respExcludedBids r) (hex_EncodeToString b1) (hex_EncodeToString b2) (wall (clock w i))"
  have "ValidString ExclusionReasonMalformedBidID" by code_simp
  then have "list_all good_ExcludedBid (respExcludedBids r)"
    using assms(3) by (auto simp: ex list_all_iff good_ExcludedBid_def malformed_def)
  then have g: "good_UserData ?ud" by (intro user_data_good assms)
  have "s = json_print (enc_UserData ?ud)"
    using s by (auto simp: Marshal_UserData_def result_simps)
  then have u: "json_Unmarshal dec_UserData s zero_UserData = Inr ?ud"
    using user_data.Unmarshal_Marshal_zero [OF g] by (simp add: max_depth_def)
  have b: "\<forall>ab \<in> set (arBids resp). \<exists>y. abBid ab = Some y" using request_ranking_bid [OF rk] by blast
  have win: "Winner resp = (case arBids resp of [] \<Rightarrow> None | b # _ \<Rightarrow> Some b)"
    using rk unfolding request_ranking_def ranking_def by blast
  have "winner_descriptor (lib_uuid L) (Winner resp)
      = (case respBids r of [] \<Rightarrow> None | b # _ \<Rightarrow> Some \<lparr>wsID = rbID b, wsRevenue = rbRevenue b\<rparr>)"
    using b unfolding win rb
    by (cases "arBids resp") (auto simp: winner_descriptor_def resolved_bid_of_def)
  moreover have "bid_hashes (lib_uuid L) n (arBids resp)
      = map (\<lambda>b. ComputeBidHash (rbID b) (rbRevenue b) n) (respBids r)" for n
    using b by (subst bid_hashes_resolved) (auto simp: rb resolved_bid_of_def)
  ultimately show ?thesis
    using att u Unmarshal_nonempty [OF u] l
    by (intro exI [of _ att] exI [of _ s] exI [of _ nonce] exI [of _ cose] exI [of _ ?ud])
      (simp add: attestation_user_data_def)
qed

lemma key_user_data:
  assumes "tags_ok (lib_tags L)" and "uuid_ok (lib_uuid L)"
    and "pem_ascii (lib_crypto L)"
    and "HandleKeyRequest L attester km w = (Some (Inr resp), w')"
  shows "\<exists>k att pub s nonce cose. km = Some k \<and> kmPublicKey k = Some pub \<and> attester = Some att
    \<and> publicKeyToPEM (lib_crypto L) (Some pub) = Some (Inr (kwaPublicKey (krKey resp)))
    \<and> att \<lparr>optUserData = s, optNonce = nonce\<rparr> = Inr cose \<and> length nonce = 64
    \<and> CompressGzip (lib_cose L) cose = Inr (kwaAttestation (krKey resp))
    \<and> s \<noteq> [] \<and> json_Unmarshal (dec_KeyUserData (lib_tags L)) s zero_KeyUserData
        = Inr \<lparr>akKey = \<lparr>KeyAlgorithm = ''RSA-2048'', PublicKey = kwaPublicKey (krKey resp)\<rparr>,
               akAuctionToken = kwaAuctionToken (krKey resp)\<rparr>"
proof (rule key_request_Inr [OF assms(4)])
  fix k att pub der i b s cose
  assume k: "km = Some k" "attester = Some att" "kmPublicKey k = Some pub" "MarshalPKIX (lib_crypto L) pub = Inr der"
    "kwaPublicKey (krKey resp) = pem_Encode (lib_crypto L) \<lparr>pem_Type = ''PUBLIC KEY'', pem_Bytes = der\<rparr>"
    and t: "kwaAuctionToken (krKey resp) = uuid_String (lib_uuid L) i" and l: "length b = 32"
    and s: "s = json_print (enc_KeyUserData (lib_tags L)
       \<lparr>akKey = \<lparr>KeyAlgorithm = ''RSA-2048'', PublicKey = kwaPublicKey (krKey resp)\<rparr>,
        akAuctionToken = kwaAuctionToken (krKey resp)\<rparr>)"
    and a: "att \<lparr>optUserData = s, optNonce = hex_EncodeToString b\<rparr> = Inr cose"
      "CompressGzip (lib_cose L) cose = Inr (kwaAttestation (krKey resp))"
  have "ValidString ''RSA-2048''" by code_simp
  then have "good_KeyUserData \<lparr>akKey = \<lparr>KeyAlgorithm = ''RSA-2048'', PublicKey = kwaPublicKey (krKey resp)\<rparr>,
        akAuctionToken = kwaAuctionToken (krKey resp)\<rparr>"
    using pem_asciiD [OF assms(3) k(4)] uuid_okD(2) [OF assms(2)] by (simp add: good_KeyUserData_def good_KeyData_def k(5) t)
  then have "json_Unmarshal (dec_KeyUserData (lib_tags L)) s zero_KeyUserData
        = Inr \<lparr>akKey = \<lparr>KeyAlgorithm = ''RSA-2048'', PublicKey = kwaPublicKey (krKey resp)\<rparr>,
               akAuctionToken = kwaAuctionToken (krKey resp)\<rparr>"
    unfolding s
    by (rule json_struct.Unmarshal_Marshal_zero [OF key_user_data_struct [OF assms(1)]]) (simp add: max_depth_def)
  moreover from this have "s \<noteq> []" by (rule Unmarshal_nonempty)
  ultimately show ?thesis
    using k a l
    by (intro exI [of _ k] exI [of _ att] exI [of _ pub] exI [of _ s] exI [of _ "hex_EncodeToString b"] exI [of _ cose])
      (simp add: publicKeyToPEM_def)
qed

subsection \<open>Properties of the handlers\<close>

text \<open>
  Every wire bid goes to exactly one side, in order: the ones whose id parses become core bids
  with the same source, revenue and sealed price, the others are excluded under their own id
  as malformed; no bid is dropped.
\<close>

lemma wireBidsToCoreBids_partition:
  "wireBidsToCoreBids U wire =
     (map (core_bid U) (filter (parses U) wire), map malformed (filter (\<lambda>wb. \<not> parses U wb) wire))
   \<and> mset (filter (parses U) wire) + mset (filter (\<lambda>wb. \<not> parses U wb) wire) = mset wire"
  using multiset_partition [of "mset wire" "parses U"] by (simp add: wireBids_filters)

text \<open>
  C22: the arbitration handler always answers (it never panics), and an unsuccessful answer carries
  neither an attestation nor bids nor exclusions; without a key manager or an attester it is
  always unsuccessful.
\<close>

theorem HandleArbitrationRequest_answers:
  "\<exists>r w'. HandleArbitrationRequest L attester km req w = (Some r, w')
     \<and> respType r = ''arbitration_response''
     \<and> (if respSuccess r then km \<noteq> None \<and> attester \<noteq> None
        else respAttestation r = [] \<and> respBids r = [] \<and> respExcludedBids r = [])"
proof -
  obtain r w' where h: "HandleArbitrationRequest L attester km req w = (Some r, w')"
    using handler_no_panic by blast
  have "km \<noteq> None \<and> attester \<noteq> None" if "respSuccess r"
    by (rule handler_success [OF h that]) simp
  moreover have "respType r = ''arbitration_response''
     \<and> (respSuccess r \<or> (respAttestation r = [] \<and> respBids r = [] \<and> respExcludedBids r = []))"
  proof (cases km)
    case None
    then show ?thesis
      using h by (auto simp: HandleArbitrationRequest_def failure_response_def Let_def split: prod.splits)
  next
    case (Some k)
    show ?thesis
      by (rule handler_attests [of L k req w attester])
        (use h Some in \<open>auto simp: map_prod_def attested_response_def failure_response_def Let_def
          split: prod.splits sum.splits\<close>)
  qed
  ultimately show ?thesis using h by auto
qed

text \<open>
  C6: a successful response lists the parsable wire bids, each once, in descending order of revenue
  (so the first is the winner), each with its source and the revenue and decryption flag the
  arbiter resolved it to, and lists all other wire bids as excluded, in order.
\<close>

theorem arbitration_response_ranked:
  assumes "HandleArbitrationRequest L attester (Some km) req w = (Some r, w')" and "respSuccess r"
  shows "mset (respBids r) = image_mset
      (\<lambda>wb. case resolveRevenue (lib_print L) (lib_crypto L) \<lparr>arbPriv = PrivateKey km\<rparr> (core_bid (lib_uuid L) wb) of
         (revenue, decrypted) \<Rightarrow> \<lparr>rbID = uuid_String (lib_uuid L) (projr (uuid_Parse (lib_uuid L) (wbID wb))),
           rbSource = wbSource wb, rbRevenue = AsMicros (lib_oor L) revenue, rbDecrypted = decrypted\<rparr>)
      (mset (filter (parses (lib_uuid L)) (reqBids req)))
    \<and> sorted_wrt (\<lambda>a b. sint (rbRevenue b) \<le> sint (rbRevenue a)) (respBids r)
    \<and> respExcludedBids r = map malformed (filter (\<lambda>wb. \<not> parses (lib_uuid L) wb) (reqBids req))"
proof (rule handler_success [OF assms])
  fix k resp
  assume k: "Some km = Some k" and rk: "request_ranking L k req resp"
    and ex: "respExcludedBids r = map malformed (filter (\<lambda>wb. \<not> parses (lib_uuid L) wb) (reqBids req))"
    and rb: "respBids r = map (resolved_bid_of (lib_uuid L)) (arBids resp)"
  have m: "mset (arBids resp) = mset (map (resolve_bid (lib_print L) (lib_oor L) (lib_crypto L) \<lparr>arbPriv = PrivateKey km\<rparr>)
        (map (core_bid (lib_uuid L)) (filter (parses (lib_uuid L)) (reqBids req))))"
    and s: "sorted_wrt (\<lambda>a b. revenue_key b \<le> revenue_key a) (arBids resp)"
    using rk k unfolding request_ranking_def ranking_def by auto
  have "mset (respBids r) = image_mset (resolved_bid_of (lib_uuid L)) (mset (arBids resp))"
    by (simp add: rb)
  also have "\<dots> = image_mset
      (\<lambda>wb. case resolveRevenue (lib_print L) (lib_crypto L) \<lparr>arbPriv = PrivateKey km\<rparr> (core_bid (lib_uuid L) wb) of
         (revenue, decrypted) \<Rightarrow> \<lparr>rbID = uuid_String (lib_uuid L) (projr (uuid_Parse (lib_uuid L) (wbID wb))),
           rbSource = wbSource wb, rbRevenue = AsMicros (lib_oor L) revenue, rbDecrypted = decrypted\<rparr>)
      (mset (filter (parses (lib_uuid L)) (reqBids req)))"
    unfolding m mset_map image_mset.compositionality
    by (intro image_mset_cong) (simp add: resolved_bid_of_def resolve_bid_def core_bid_def split: prod.split)
  finally show ?thesis
    using s ex by (simp add: rb sorted_wrt_map resolved_bid_of_def revenue_key_def)
qed

theorem arbitration_response_ranked_witness:
  "\<exists>r w'. HandleArbitrationRequest ex_libs (Some ex_attester) (Some ex_km) ex_req ex_world = (Some r, w')
     \<and> respSuccess r \<and> respExcludedBids r = [\<lparr>exBidID = ''x'', exReason = ''malformed bid id''\<rparr>]"
proof (rule ex_handler)
  fix r w'
  assume h: "HandleArbitrationRequest ex_libs (Some ex_attester) (Some ex_km) ex_req ex_world = (Some r, w')"
    and s: "respSuccess r"
  have "respExcludedBids r = map malformed (filter (\<lambda>wb. \<not> parses (lib_uuid ex_libs) wb) (reqBids ex_req))"
    using arbitration_response_ranked [OF h s] by blast
  also have "\<dots> = [\<lparr>exBidID = ''x'', exReason = ''malformed bid id''\<rparr>]" by code_simp
  finally show ?thesis using h s by blast
qed

text \<open>
  C21: with an attester that attests, entropy, and a clock JSON can write, an arbitration request is
  answered successfully whatever bids it holds, malformed or undecryptable ones included.
\<close>

theorem arbitration_succeeds:
  assumes "sound_world w" and "always_attests att"
  shows "\<exists>r w'. HandleArbitrationRequest L (Some att) (Some km) req w = (Some r, w') \<and> respSuccess r
     \<and> length (respBids r) + length (respExcludedBids r) = length (reqBids req)"
proof -
  obtain r w' where h: "HandleArbitrationRequest L (Some att) (Some km) req w = (Some r, w')" "respSuccess r"
    using handler_ok [OF assms] by blast
  have "length (respBids r) + length (respExcludedBids r) = length (reqBids req)"
  proof (rule handler_success [OF h])
    fix k resp
    assume rk: "request_ranking L k req resp"
      and e: "respExcludedBids r = map malformed (filter (\<lambda>wb. \<not> parses (lib_uuid L) wb) (reqBids req))"
        "respBids r = map (resolved_bid_of (lib_uuid L)) (arBids resp)"
    have "length (arBids resp) = length (filter (parses (lib_uuid L)) (reqBids req))"
      using rk unfolding request_ranking_def ranking_def by (metis length_map size_mset)
    then show ?thesis by (simp add: e sum_length_filter_compl)
  qed
  then show ?thesis using h by blast
qed

theorem arbitration_succeeds_witness:
  "\<exists>r w'. HandleArbitrationRequest ex_libs (Some ex_attester) (Some ex_km) ex_req ex_world = (Some r, w')
     \<and> respSuccess r \<and> length (respBids r) + length (respExcludedBids r) = length (reqBids ex_req)"
  by (rule arbitration_succeeds [OF ex_sound_world ex_always_attests])

text \<open>
  C5: the user data attested with a successful response reads back to the response itself: the request
  id, one bid hash per listed bid in the same order over its id and revenue, the first listed
  bid as the winner, the same exclusions, and the hash of the request, under nonces of 256
  bits that the user data carries.
\<close>

theorem attestation_matches_response:
  assumes "uuid_ok (lib_uuid L)" and "ValidString (reqRequestID req)"
    and "list_all (\<lambda>wb. ValidString (wbID wb)) (reqBids req)"
    and "\<And>i. time_ok (wall (clock w i))"
    and "HandleArbitrationRequest L attester km req w = (Some r, w')" and "respSuccess r"
  shows "\<exists>att s nonce cose ud. attester = Some att \<and> att \<lparr>optUserData = s, optNonce = nonce\<rparr> = Inr cose
    \<and> respAttestation r = EncodeBase64 (lib_cose L) cose
    \<and> json_Unmarshal dec_UserData s zero_UserData = Inr ud
    \<and> udRequestID ud = reqRequestID req
    \<and> udBidHashes ud = map (\<lambda>b. ComputeBidHash (rbID b) (rbRevenue b) (udBidHashNonce ud)) (respBids r)
    \<and> udWinner ud = (case respBids r of [] \<Rightarrow> None | b # _ \<Rightarrow> Some \<lparr>wsID = rbID b, wsRevenue = rbRevenue b\<rparr>)
    \<and> udExcludedBids ud = respExcludedBids r
    \<and> udRequestHash ud = ComputeRequestHash (reqRequestID req) (udRequestNonce ud)
    \<and> length (udBidHashNonce ud) = 64 \<and> length (udRequestNonce ud) = 64"
  using attested_user_data [OF assms] by blast

theorem attestation_matches_response_witness:
  "\<exists>s nonce (r :: EnclaveArbitrationResponse) ud. ex_attester \<lparr>optUserData = s, optNonce = nonce\<rparr> = Inr (respAttestation r)
     \<and> respSuccess r \<and> json_Unmarshal dec_UserData s zero_UserData = Inr ud \<and> udRequestID ud = ''req-1''"
proof (rule ex_handler)
  fix r w'
  assume h: "HandleArbitrationRequest ex_libs (Some ex_attester) (Some ex_km) ex_req ex_world = (Some r, w')"
    and s: "respSuccess r"
  have v: "uuid_ok (lib_uuid ex_libs)" using ex_uuid_ok by (simp add: ex_libs_def)
  have v2: "ValidString (reqRequestID ex_req)" by code_simp
  have v3: "list_all (\<lambda>wb. ValidString (wbID wb)) (reqBids ex_req)" by code_simp
  have c: "time_ok (wall (clock ex_world i))" for i using ex_sound_world by (simp add: sound_world_def)
  obtain att n nonce cose ud where "Some ex_attester = Some att"
    "att \<lparr>optUserData = n, optNonce = nonce\<rparr> = Inr cose" "respAttestation r = EncodeBase64 (lib_cose ex_libs) cose"
    "json_Unmarshal dec_UserData n zero_UserData = Inr ud" "udRequestID ud = reqRequestID ex_req"
    using attestation_matches_response [OF v v2 v3 c h s] by blast
  then have "ex_attester \<lparr>optUserData = n, optNonce = nonce\<rparr> = Inr (respAttestation r)"
    "json_Unmarshal dec_UserData n zero_UserData = Inr ud" "udRequestID ud = ''req-1''"
    by (simp_all add: ex_libs_def ex_cose_def ex_req_def)
  then show ?thesis using s by blast
qed

text \<open>
  C24: a key response publishes the key that its attestation binds: the attested user data reads back
  to the same PEM text and the same token as the unsigned envelope, under RSA-2048.
\<close>

theorem key_response_attested:
  assumes "tags_ok (lib_tags L)" and "uuid_ok (lib_uuid L)"
    and "pem_ascii (lib_crypto L)"
    and "HandleKeyRequest L attester km w = (Some (Inr resp), w')"
  shows "\<exists>k att pub s nonce cose. km = Some k \<and> kmPublicKey k = Some pub \<and> attester = Some att
    \<and> publicKeyToPEM (lib_crypto L) (Some pub) = Some (Inr (kwaPublicKey (krKey resp)))
    \<and> att \<lparr>optUserData = s, optNonce = nonce\<rparr> = Inr cose \<and> length nonce = 64
    \<and> CompressGzip (lib_cose L) cose = Inr (kwaAttestation (krKey resp))
    \<and> json_Unmarshal (dec_KeyUserData (lib_tags L)) s zero_KeyUserData
        = Inr \<lparr>akKey = \<lparr>KeyAlgorithm = ''RSA-2048'', PublicKey = kwaPublicKey (krKey resp)\<rparr>,
               akAuctionToken = kwaAuctionToken (krKey resp)\<rparr>"
  using key_user_data [OF assms] by blast

lemma ex_pem_ascii: "pem_ascii ex_crypto"
proof -
  have "ValidString ''P33''" by code_simp
  then show ?thesis by (simp add: pem_ascii_def ex_crypto_def)
qed

lemma ex_key_response:
  obtains resp w' where "HandleKeyRequest ex_libs (Some ex_attester) (Some ex_km) ex_world = (Some (Inr resp), w')"
  by (simp add: HandleKeyRequest_def ex_km_def ex_priv_def ex_libs_def ex_crypto_def PublicKeyPEM_def publicKeyToPEM_def
    uuid_NewString_def rand_Read_def ex_world_def GenerateKeyAttestation_def generateNonce_def ex_attester_def
    ex_cose_def bind_pio_def wrap_pio_def lift_pio_def no_panic_def bind_io_def wrap_io_def lift_io_def Let_def)

theorem key_response_attested_witness:
  "\<exists>s nonce (resp :: KeyResponse). ex_attester \<lparr>optUserData = s, optNonce = nonce\<rparr> = Inr (kwaAttestation (krKey resp))
     \<and> json_Unmarshal (dec_KeyUserData ex_tags) s zero_KeyUserData
        = Inr \<lparr>akKey = \<lparr>KeyAlgorithm = ''RSA-2048'', PublicKey = kwaPublicKey (krKey resp)\<rparr>,
               akAuctionToken = kwaAuctionToken (krKey resp)\<rparr>"
proof (rule ex_key_response)
  fix resp w'
  assume h: "HandleKeyRequest ex_libs (Some ex_attester) (Some ex_km) ex_world = (Some (Inr resp), w')"
  have t: "tags_ok (lib_tags ex_libs)" "uuid_ok (lib_uuid ex_libs)"
    using ex_tags_ok ex_uuid_ok by (simp_all add: ex_libs_def)
  have p: "pem_ascii (lib_crypto ex_libs)" using ex_pem_ascii by (simp add: ex_libs_def)
  obtain att s nonce cose where "Some ex_attester = Some att" "att \<lparr>optUserData = s, optNonce = nonce\<rparr> = Inr cose"
    "CompressGzip (lib_cose ex_libs) cose = Inr (kwaAttestation (krKey resp))"
    "json_Unmarshal (dec_KeyUserData (lib_tags ex_libs)) s zero_KeyUserData
        = Inr \<lparr>akKey = \<lparr>KeyAlgorithm = ''RSA-2048'', PublicKey = kwaPublicKey (krKey resp)\<rparr>,
               akAuctionToken = kwaAuctionToken (krKey resp)\<rparr>"
    using key_response_attested [OF t p h] by blast
  then have "ex_attester \<lparr>optUserData = s, optNonce = nonce\<rparr> = Inr (kwaAttestation (krKey resp))"
    "json_Unmarshal (dec_KeyUserData ex_tags) s zero_KeyUserData
        = Inr \<lparr>akKey = \<lparr>KeyAlgorithm = ''RSA-2048'', PublicKey = kwaPublicKey (krKey resp)\<rparr>,
               akAuctionToken = kwaAuctionToken (krKey resp)\<rparr>"
    by (simp_all add: ex_libs_def ex_cose_def)
  then show ?thesis by blast
qed

text \<open>
  A key request panics exactly when the key manager has no public key, or the key marshals but
  there is no entropy for the token; every other failure is an error.
\<close>

lemma HandleKeyRequest_panic_iff:
  "fst (HandleKeyRequest L attester km w) = None \<longleftrightarrow>
     (\<exists>k. km = Some k \<and> (case kmPublicKey k of
        None \<Rightarrow> True
      | Some pub \<Rightarrow> is_ok (MarshalPKIX (lib_crypto L) pub) \<and> \<not> is_ok (entropy w (entropy_reads w))))"
proof (cases km)
  case None
  then show ?thesis by (simp add: HandleKeyRequest_def lift_pio_def)
next
  case (Some k)
  show ?thesis
  proof (cases "kmPublicKey k")
    case None
    then show ?thesis
      by (simp add: Some HandleKeyRequest_def PublicKeyPEM_def publicKeyToPEM_def bind_pio_def wrap_pio_def lift_pio_def)
  next
    case pub: (Some pub)
    show ?thesis
    proof (cases "MarshalPKIX (lib_crypto L) pub")
      case (Inl e)
      then show ?thesis
        by (simp add: Some pub HandleKeyRequest_def PublicKeyPEM_def publicKeyToPEM_def bind_pio_def wrap_pio_def
          lift_pio_def)
    next
      case (Inr der)
      have g: "GenerateKeyAttestation T C att (Some pub) token w1 \<noteq> (None, w2)"
        if "MarshalPKIX C pub = Inr der" for T C att token w1 w2
        using that by (auto simp: GenerateKeyAttestation_def result_simps publicKeyToPEM_def Let_def split: option.splits)
      have "fst (HandleKeyRequest L attester km w) = None \<longleftrightarrow>
          (\<exists>w2. HandleKeyRequest L attester km w = (None, w2))"
        by (cases "HandleKeyRequest L attester km w") simp
      also have "\<dots> \<longleftrightarrow> \<not> is_ok (entropy w (entropy_reads w))"
        using g [OF Inr] Inr
        by (auto simp: HandleKeyRequest_def Some pub PublicKeyPEM_def publicKeyToPEM_def result_simps
          uuid_NewString_def rand_Read_def split: sum.splits prod.splits)
      finally show ?thesis using Inr by (simp add: Some pub)
    qed
  qed
qed

end
