(* ===== verification/Go_Strings.thy ===== *)
theory Go_Strings
  imports Go_Strconv
begin

section \<open>Go's strings and bufio.Scanner\<close>

text \<open>
  The string functions behind the /proc parsers and the key comparison, on bytes.  A white
  space rune is one of the byte sequences \<open>space_seqs\<close>, the UTF-8 encodings of the runes
  of \<open>unicode.IsSpace\<close>; no proper part of the encoding of another rune begins with the
  first byte of one, so a scan by bytes sees the same spaces as Go's scan by runes.
\<close>

definition space_seqs :: "string list" where
  "space_seqs =
     [[CHR 0x09], [CHR 0x0A], [CHR 0x0B], [CHR 0x0C], [CHR 0x0D], [CHR 0x20],
      [CHR 0xC2, CHR 0x85], [CHR 0xC2, CHR 0xA0], [CHR 0xE1, CHR 0x9A, CHR 0x80],
      [CHR 0xE2, CHR 0x81, CHR 0x9F], [CHR 0xE3, CHR 0x80, CHR 0x80]]
     @ map (\<lambda>k. [CHR 0xE2, CHR 0x80, k])
         [CHR 0x80, CHR 0x81, CHR 0x82, CHR 0x83, CHR 0x84, CHR 0x85, CHR 0x86, CHR 0x87,
          CHR 0x88, CHR 0x89, CHR 0x8A, CHR 0xA8, CHR 0xA9, CHR 0xAF]"

text \<open>What is left after one of the sequences at the front, if there is one.\<close>

definition cut_front :: "string list \<Rightarrow> string \<Rightarrow> string option" where
  "cut_front seqs s =
     map_option (\<lambda>p. drop (length p) s) (find (\<lambda>p. p \<noteq> [] \<and> prefix p s) seqs)"

lemma cut_front_shorter: "cut_front seqs s = Some r \<Longrightarrow> length r < length s"
  by (auto simp: cut_front_def find_Some_iff prefix_def)

function trim_front :: "string list \<Rightarrow> string \<Rightarrow> string" where
  "trim_front seqs s = (case cut_front seqs s of None \<Rightarrow> s | Some r \<Rightarrow> trim_front seqs r)"
  by pat_completeness auto
termination
  by (relation "measure (\<lambda>(_, s). length s)") (auto simp: cut_front_shorter)

declare trim_front.simps [simp del]

definition TrimSpace :: "string \<Rightarrow> string" where
  "TrimSpace s = rev (trim_front (map rev space_seqs) (rev (trim_front space_seqs s)))"

definition TrimSuffix :: "string \<Rightarrow> string \<Rightarrow> string" where
  "TrimSuffix s suf = (if suffix suf s then take (length s - length suf) s else s)"

text \<open>\<open>cur\<close> is the field being read, last byte first.\<close>

function fields_loop :: "string \<Rightarrow> string \<Rightarrow> string list" where
  "fields_loop cur [] = (if cur = [] then [] else [rev cur])"
| "fields_loop cur (c # cs) =
     (case cut_front space_seqs (c # cs) of
        None \<Rightarrow> fields_loop (c # cur) cs
      | Some r \<Rightarrow> (if cur = [] then [] else [rev cur]) @ fields_loop [] r)"
  by pat_completeness auto
termination
  by (relation "measure (\<lambda>(_, s). length s)") (auto dest: cut_front_shorter)

definition Fields :: "string \<Rightarrow> string list" where
  "Fields s = fields_loop [] s"

text \<open>\<open>strings.IndexByte\<close>, the position of the first occurrence.\<close>

fun IndexByte :: "string \<Rightarrow> char \<Rightarrow> nat option" where
  "IndexByte [] c = None"
| "IndexByte (x # xs) c = (if x = c then Some 0 else map_option Suc (IndexByte xs c))"

definition HasPrefix :: "string \<Rightarrow> string \<Rightarrow> bool" where
  "HasPrefix s p \<longleftrightarrow> prefix p s"

subsection \<open>bufio.Scanner, by lines\<close>

text \<open>
  The tokens of the default scanner and the error it stops with: lines without their line
  feed and one carriage return before it; a line whose first 65536 bytes hold no line feed
  fills the buffer and ends the scan.
\<close>

definition ErrTooLong :: goerr where
  "ErrTooLong = LibError ''bufio.Scanner: token too long''"

definition dropCR :: "string \<Rightarrow> string" where
  "dropCR s = (if s \<noteq> [] \<and> last s = CHR 0x0D then butlast s else s)"

function scan_lines :: "bytes \<Rightarrow> string list \<times> goerr option" where
  "scan_lines s =
     (if s = [] then ([], None)
      else let line = takeWhile (\<lambda>c. c \<noteq> CHR 0x0A) s;
               rest = dropWhile (\<lambda>c. c \<noteq> CHR 0x0A) s
           in if 65536 \<le> length line then ([], Some ErrTooLong)
              else if rest = [] then ([dropCR line], None)
              else let (ts, e) = scan_lines (tl rest) in (dropCR line # ts, e))"
  by pat_completeness auto
termination
proof (relation "measure length")
  fix s line rest :: string
  assume s: "s \<noteq> []" "rest = dropWhile (\<lambda>c. c \<noteq> CHR 0x0A) s"
  have "length rest \<le> length s" unfolding s(2) by (rule length_dropWhile_le)
  then have "length (tl rest) < length s" using s(1) by (cases s) auto
  then show "(tl rest, s) \<in> measure length" by simp
qed simp

declare scan_lines.simps [simp del]

subsection \<open>Facts\<close>

definition space_byte :: "char \<Rightarrow> bool" where
  "space_byte c \<longleftrightarrow> c \<in> set (concat space_seqs)"

lemma cut_front_None: "\<not> space_byte c \<Longrightarrow> cut_front space_seqs (c # cs) = None"
  by (auto simp: cut_front_def find_None_iff space_byte_def prefix_Cons)

lemma cut_back_None: "\<not> space_byte c \<Longrightarrow> cut_front (map rev space_seqs) (c # cs) = None"
  by (fastforce simp: cut_front_def find_None_iff space_byte_def prefix_Cons
      intro: in_set_conv_decomp [THEN iffD2] dest: arg_cong [of "rev _" _ set])

lemma cut_front_space: "cut_front space_seqs (CHR '' '' # cs) = Some cs"
  by (simp add: cut_front_def space_seqs_def)

lemma trim_front_stop: "cut_front seqs s = None \<Longrightarrow> trim_front seqs s = s"
  by (subst trim_front.simps) simp

lemma trim_front_spaces: "trim_front space_seqs (replicate k (CHR '' '') @ s) = trim_front space_seqs s"
proof (induction k)
  case (Suc k)
  then show ?case by (subst trim_front.simps) (simp add: cut_front_space)
qed simp

lemma TrimSpace_padded:
  assumes "s \<noteq> []" and "\<not> space_byte (hd s)" and "\<not> space_byte (last s)"
  shows "TrimSpace (replicate k (CHR '' '') @ s) = s"
proof -
  have "cut_front space_seqs s = None" using assms(1,2) by (cases s) (auto intro: cut_front_None)
  moreover have "cut_front (map rev space_seqs) (rev s) = None"
    using assms(1,3) by (cases s rule: rev_cases) (auto intro: cut_back_None)
  ultimately show ?thesis by (simp add: TrimSpace_def trim_front_spaces trim_front_stop)
qed

lemma TrimSuffix_append: "TrimSuffix (s @ suf) suf = s"
  by (auto simp: TrimSuffix_def suffix_def)

lemma IndexByte_append: "c \<notin> set s \<Longrightarrow> IndexByte (s @ c # t) c = Some (length s)"
  by (induction s) auto

lemma IndexByte_None: "IndexByte s c = None \<longleftrightarrow> c \<notin> set s"
  by (induction s) auto

lemma IndexByte_Some: "IndexByte s c = Some i \<Longrightarrow> i < length s \<and> s ! i = c \<and> c \<notin> set (take i s)"
  by (induction s arbitrary: i) (auto split: if_splits)

lemma fields_loop_word:
  "list_all (\<lambda>c. \<not> space_byte c) w \<Longrightarrow> fields_loop cur (w @ s) = fields_loop (rev w @ cur) s"
  by (induction w arbitrary: cur) (auto simp: cut_front_None)

lemma fields_loop_space:
  "fields_loop cur (CHR '' '' # s) = (if cur = [] then [] else [rev cur]) @ fields_loop [] s"
  by (simp add: cut_front_space)

lemma fields_loop_spaces: "fields_loop [] (replicate k (CHR '' '') @ s) = fields_loop [] s"
  by (induction k) (simp_all add: cut_front_space)

definition is_word :: "string \<Rightarrow> bool" where
  "is_word w \<longleftrightarrow> w \<noteq> [] \<and> list_all (\<lambda>c. \<not> space_byte c) w"

text \<open>Words with one space before each come back as the fields.\<close>

lemma fields_loop_words:
  assumes "list_all is_word ws"
  shows "fields_loop cur (concat (map (\<lambda>w. CHR '' '' # w) ws))
      = (if cur = [] then [] else [rev cur]) @ ws"
  using assms
proof (induction ws arbitrary: cur)
  case (Cons w ws)
  then have "fields_loop (rev w) (concat (map (\<lambda>w. CHR '' '' # w) ws)) = [w] @ ws"
    by (simp add: is_word_def)
  moreover have "fields_loop [] (w @ s) = fields_loop (rev w) s" for s
    using Cons.prems fields_loop_word [of w "[]"] by (simp add: is_word_def)
  ultimately show ?case
    by (simp only: list.map concat.simps append_Cons fields_loop_space append_assoc append_Nil)
qed simp

lemma Fields_words:
  assumes "is_word w" and "list_all is_word ws"
  shows "Fields (w @ concat (map (\<lambda>w. CHR '' '' # w) ws)) = w # ws"
proof -
  have "rev w \<noteq> []" using assms(1) by (simp add: is_word_def)
  then show ?thesis
    using fields_loop_words [OF assms(2), of "rev w"] fields_loop_word [of w "[]"] assms(1)
    by (simp add: Fields_def is_word_def)
qed

lemma space_byte_ascii:
  "space_byte c \<Longrightarrow> c \<in> set ''0123456789kBcpu:'' \<Longrightarrow> False"
  by (simp add: space_byte_def space_seqs_def) (elim disjE; simp)

lemma digits_is_word: "is_word (dec_digits n)" if "0 \<le> n"
  using dec_digits_set [OF that] dec_digits_nonempty [of n] space_byte_ascii
  by (fastforce simp: is_word_def list_all_iff)

end
