(* ===== verification/Enclave_SysInfo.thy ===== *)
theory Enclave_SysInfo
  imports Go_Float Go_Strings Go_Utf8
begin

section \<open>enclave/sysinfo.go: memory and CPU usage from /proc\<close>

text \<open>
  The parsers of /proc/meminfo and /proc/stat and the percentages made of them, on
  \<open>uint64\<close> words that wrap around and the float64 of \<open>Go_Float\<close>.  A file system maps a
  path to the error of \<open>os.Open\<close>, or to the bytes read and the error the read ends with,
  if any.  \<open>print\<close> is the table of printable runes of \<open>%q\<close>.
\<close>

subsection \<open>Types\<close>

type_synonym files = "string \<Rightarrow> (bytes \<times> goerr option) result"

record SystemInfo =
  MemTotalBytes :: uint64
  MemUsedBytes :: uint64
  MemUsagePercent :: f64
  CPUUsagePercent :: f64
  NumCPUs :: int

record memStats =
  totalBytes :: uint64
  usedBytes :: uint64
  usagePercent :: f64

record cpuTicks =
  total :: uint64
  idle :: uint64

subsection \<open>/proc/meminfo\<close>

definition parseMemInfoLine :: "string \<Rightarrow> (string \<times> uint64) option" where
  "parseMemInfoLine line =
     (case IndexByte line (CHR '':'') of
        None \<Rightarrow> None
      | Some colon \<Rightarrow>
          let key = take colon line;
              rest = TrimSpace (drop (colon + 1) line);
              rest = TrimSuffix rest '' kB''
          in case ParseUint rest of
               Inl _ \<Rightarrow> None
             | Inr v \<Rightarrow> Some (key, word_of_int v))"

text \<open>The tokens of a scanner over an open file, and \<open>scanner.Err()\<close>.\<close>

definition scan_file :: "bytes \<times> goerr option \<Rightarrow> string list \<times> goerr option" where
  "scan_file f =
     (let (content, rerr) = f; (lines, e) = scan_lines content
      in (lines, if e = None then rerr else e))"

definition kv_step :: "string list \<Rightarrow> (string \<rightharpoonup> uint64) \<Rightarrow> string \<Rightarrow> (string \<rightharpoonup> uint64)" where
  "kv_step keys result line =
     (case parseMemInfoLine line of
        None \<Rightarrow> result
      | Some (key, v) \<Rightarrow> if key \<in> set keys then result(key \<mapsto> v) else result)"

definition parseKeyValueKB :: "files \<Rightarrow> string \<Rightarrow> string list \<Rightarrow> (string \<rightharpoonup> uint64) result" where
  "parseKeyValueKB fs path keys =
     (case fs path of
        Inl e \<Rightarrow> Inl e
      | Inr f \<Rightarrow>
          let (lines, e) = scan_file f
          in (case e of
                Some err \<Rightarrow> Inl err
              | None \<Rightarrow> Inr (foldl (kv_step keys) Map.empty lines)))"

text \<open>\<open>m[k]\<close> of a Go map: zero when the key is missing.\<close>

definition map_get :: "(string \<rightharpoonup> uint64) \<Rightarrow> string \<Rightarrow> uint64" where
  "map_get m k = (case m k of None \<Rightarrow> 0 | Some v \<Rightarrow> v)"

text \<open>\<open>math.Round(pct*10) / 10\<close> and the ratio of two counters times 100.\<close>

definition round_tenth :: "f64 \<Rightarrow> f64" where
  "round_tenth pct = f64_div (math_Round (f64_mult pct (f64_of_int 10))) (f64_of_int 10)"

definition percent :: "uint64 \<Rightarrow> uint64 \<Rightarrow> f64" where
  "percent a b = f64_mult (f64_div (f64_of_uint64 a) (f64_of_uint64 b)) (f64_of_int 100)"

definition memStats_of :: "uint64 \<Rightarrow> uint64 \<Rightarrow> memStats" where
  "memStats_of tot available =
     (let totalB = tot * 1024;
          usedB = (if available < tot then (tot - available) * 1024 else 0);
          pct = percent usedB totalB
      in \<lparr>totalBytes = totalB, usedBytes = usedB, usagePercent = round_tenth pct\<rparr>)"

definition readMemInfo :: "files \<Rightarrow> string \<Rightarrow> memStats result" where
  "readMemInfo fs path =
     (case parseKeyValueKB fs path [''MemTotal'', ''MemAvailable'', ''MemFree'', ''Buffers'', ''Cached''] of
        Inl e \<Rightarrow> Inl e
      | Inr kv \<Rightarrow>
          (case kv ''MemTotal'' of
             None \<Rightarrow> Inl (Errorf (''MemTotal not found or zero in '' @ path))
           | Some tot \<Rightarrow>
               if tot = 0 then Inl (Errorf (''MemTotal not found or zero in '' @ path))
               else
                 let available =
                   (case kv ''MemAvailable'' of
                      Some a \<Rightarrow> a
                    | None \<Rightarrow> map_get kv ''MemFree'' + map_get kv ''Buffers''
                               + map_get kv ''Cached'')
                 in Inr (memStats_of tot available)))"

subsection \<open>/proc/stat\<close>

text \<open>The loop over the fields after the first: \<open>i\<close> counts them.\<close>

fun cpu_fields :: "nat \<Rightarrow> cpuTicks \<Rightarrow> string list \<Rightarrow> cpuTicks result" where
  "cpu_fields i t [] = Inr t"
| "cpu_fields i t (f # fs) =
     (case ParseUint f of
        Inl e \<Rightarrow> Inl (Wrapf (''parse field '' @ dec_nat i @ '' of cpu line'')
                      (LibError ''strconv.ParseUint''))
      | Inr v \<Rightarrow>
          let t1 = t\<lparr>total := total t + word_of_int v\<rparr>;
              t2 = (if i = 3 then t1\<lparr>idle := word_of_int v\<rparr> else t1)
          in cpu_fields (Suc i) t2 fs)"

definition parseCPULine :: "(int \<Rightarrow> bool) \<Rightarrow> string \<Rightarrow> cpuTicks result" where
  "parseCPULine print line =
     (let fs = Fields line in
      if length fs < 5
      then Inl (Errorf (''unexpected cpu line format: '' @ strconv_Quote print line))
      else
        let numFields = length fs - 1;
            numFields = (if 8 < numFields then 8 else numFields)
        in cpu_fields 0 \<lparr>total = 0, idle = 0\<rparr> (take numFields (drop 1 fs)))"

definition readCPUTicks :: "(int \<Rightarrow> bool) \<Rightarrow> files \<Rightarrow> string \<Rightarrow> cpuTicks result" where
  "readCPUTicks print fs path =
     (case fs path of
        Inl e \<Rightarrow> Inl e
      | Inr f \<Rightarrow>
          let (lines, e) = scan_file f
          in (case find (\<lambda>line. HasPrefix line ''cpu '') lines of
                Some line \<Rightarrow> parseCPULine print line
              | None \<Rightarrow>
                  (case e of
                     Some err \<Rightarrow> Inl err
                   | None \<Rightarrow> Inl (Errorf (''no aggregate cpu line found in '' @ path)))))"

definition cpu_percent :: "cpuTicks \<Rightarrow> cpuTicks \<Rightarrow> f64" where
  "cpu_percent t1 t2 =
     (let totalDelta = total t2 - total t1;
          idleDelta = idle t2 - idle t1
      in if totalDelta = 0 then f64_of_int 0
         else let pct = percent (totalDelta - idleDelta) totalDelta in round_tenth pct)"

text \<open>\<open>between\<close> is what happens to the files between the two reads.\<close>

definition sampleCPUUsageBetween ::
  "(int \<Rightarrow> bool) \<Rightarrow> files \<Rightarrow> string \<Rightarrow> (files \<Rightarrow> files) \<Rightarrow> f64 result" where
  "sampleCPUUsageBetween print fs path between =
     bind_result (readCPUTicks print fs path) (\<lambda>t1.
     bind_result (readCPUTicks print (between fs) path) (\<lambda>t2.
     Inr (cpu_percent t1 t2)))"

definition cpuSampleInterval :: int where
  "cpuSampleInterval = 100 * 1000000"

text \<open>\<open>sleep d\<close> is what the files become while the process sleeps for d nanoseconds.\<close>

definition sampleCPUUsage ::
  "(int \<Rightarrow> bool) \<Rightarrow> (int \<Rightarrow> files \<Rightarrow> files) \<Rightarrow> files \<Rightarrow> string \<Rightarrow> int \<Rightarrow> f64 result" where
  "sampleCPUUsage print sleep fs path interval =
     sampleCPUUsageBetween print fs path (\<lambda>fs. sleep interval fs)"

definition GetSystemInfo ::
  "(int \<Rightarrow> bool) \<Rightarrow> (int \<Rightarrow> files \<Rightarrow> files) \<Rightarrow> int \<Rightarrow> files \<Rightarrow> SystemInfo result" where
  "GetSystemInfo print sleep numCPU fs =
     bind_result (wrap_err ''read meminfo'' (readMemInfo fs ''/proc/meminfo'')) (\<lambda>mem.
     bind_result (wrap_err ''sample cpu usage''
       (sampleCPUUsage print sleep fs ''/proc/stat'' cpuSampleInterval)) (\<lambda>cpuPct.
     Inr \<lparr>MemTotalBytes = totalBytes mem, MemUsedBytes = usedBytes mem,
          MemUsagePercent = usagePercent mem, CPUUsagePercent = cpuPct, NumCPUs = numCPU\<rparr>))"

subsection \<open>Reading back what the kernel prints\<close>

text \<open>
  One line of /proc/meminfo as the kernel prints it: the key, a colon, the value padded with
  blanks, the unit.
\<close>

definition meminfo_line :: "string \<times> nat \<times> uint64 \<Rightarrow> string" where
  "meminfo_line e =
     (let (key, pad, v) = e
      in key @ '':'' @ replicate pad (CHR '' '') @ dec_digits (uint v) @ '' kB'')"

definition meminfo_text :: "(string \<times> nat \<times> uint64) list \<Rightarrow> bytes" where
  "meminfo_text es = concat (map (\<lambda>e. meminfo_line e @ [CHR 0x0A]) es)"

definition meminfo_entry :: "string \<times> nat \<times> uint64 \<Rightarrow> bool" where
  "meminfo_entry e =
     (let (key, pad, v) = e
      in CHR '':'' \<notin> set key \<and> CHR 0x0A \<notin> set key \<and> length key + pad < 65000)"

lemma dec_uint64_hd_last:
  "\<not> space_byte (hd (dec_digits (uint (v :: uint64))))"
  "hd (dec_digits (uint (v :: uint64)) @ t) = hd (dec_digits (uint v))"
  using digits_is_word [of "uint v"] by (auto simp: is_word_def list_all_iff)

lemma not_space_B: "\<not> space_byte (CHR ''B'')"
  using space_byte_ascii [of "CHR ''B''"] by auto

lemma ParseUint_uint64 [simp]: "ParseUint (dec_digits (uint (v :: uint64))) = Inr (uint v)"
proof -
  have "uint v < 2 ^ 64" using uint_range_size [of v] by (simp add: word_size)
  then show ?thesis by (simp add: ParseUint_dec max_uint64_def)
qed

lemma parseMemInfoLine_line:
  assumes "CHR '':'' \<notin> set key"
  shows "parseMemInfoLine (meminfo_line (key, pad, v)) = Some (key, v)"
proof -
  let ?d = "dec_digits (uint v) @ '' kB''"
  have "?d \<noteq> []" "\<not> space_byte (hd ?d)" "\<not> space_byte (last ?d)"
    using dec_uint64_hd_last [of v] not_space_B by simp_all
  then have t: "TrimSpace (replicate pad (CHR '' '') @ ?d) = ?d" by (rule TrimSpace_padded)
  have l: "meminfo_line (key, pad, v) = key @ CHR '':'' # (replicate pad (CHR '' '') @ ?d)"
    by (simp add: meminfo_line_def)
  show ?thesis
    unfolding parseMemInfoLine_def l IndexByte_append [OF assms] option.case Let_def
    by (simp add: t TrimSuffix_append del: append_assoc)
qed

lemma scan_lines_cons:
  assumes "CHR 0x0A \<notin> set l" and "length l < 65536"
  shows "scan_lines (l @ CHR 0x0A # s) = (dropCR l # fst (scan_lines s), snd (scan_lines s))"
proof -
  have "takeWhile (\<lambda>c. c \<noteq> CHR 0x0A) (l @ CHR 0x0A # s) = l"
    and "dropWhile (\<lambda>c. c \<noteq> CHR 0x0A) (l @ CHR 0x0A # s) = CHR 0x0A # s"
    using assms(1) by (auto simp: takeWhile_append dropWhile_append)
  then show ?thesis using assms(2)
    by (subst scan_lines.simps) (simp add: Let_def split: prod.splits)
qed

lemma scan_lines_unlines:
  assumes "list_all (\<lambda>l. CHR 0x0A \<notin> set l \<and> length l < 65536) ls"
  shows "scan_lines (concat (map (\<lambda>l. l @ [CHR 0x0A]) ls)) = (map dropCR ls, None)"
  using assms
proof (induction ls)
  case Nil
  show ?case by (subst scan_lines.simps) simp
next
  case (Cons l ls)
  then show ?case using scan_lines_cons [of l "concat (map (\<lambda>l. l @ [CHR 0x0A]) ls)"] by simp
qed

lemma dec_digits_uint64_length: "length (dec_digits (uint (v :: uint64))) \<le> 20"
proof -
  have l: "length (dec_digits n) \<le> Suc k" if "0 \<le> n" "n < 10 ^ Suc k" for n k
    using that
  proof (induction k arbitrary: n)
    case 0
    then show ?case by (subst dec_digits.simps) simp
  next
    case (Suc k)
    have "n div 10 < 10 ^ Suc k" using Suc.prems by simp
    with Suc show ?case by (subst dec_digits.simps) simp
  qed
  have "uint v < 2 ^ 64" using uint_range_size [of v] by (simp add: word_size)
  then show ?thesis using l [of "uint v" 19] by simp
qed

lemma meminfo_line_ok:
  assumes "meminfo_entry e"
  shows "CHR 0x0A \<notin> set (meminfo_line e)" and "length (meminfo_line e) < 65536"
    and "dropCR (meminfo_line e) = meminfo_line e"
proof -
  obtain key pad v where e: "e = (key, pad, v)" by (cases e)
  show "CHR 0x0A \<notin> set (meminfo_line e)"
    using assms dec_digits_set [of "uint v"] by (auto simp: e meminfo_entry_def meminfo_line_def)
  show "length (meminfo_line e) < 65536"
    using assms dec_digits_uint64_length [of v] by (simp add: e meminfo_entry_def meminfo_line_def)
  show "dropCR (meminfo_line e) = meminfo_line e"
    by (simp add: e meminfo_line_def dropCR_def)
qed

lemma scan_meminfo:
  assumes "list_all meminfo_entry es"
  shows "scan_file (meminfo_text es, None) = (map meminfo_line es, None)"
proof -
  have "scan_lines (concat (map (\<lambda>l. l @ [CHR 0x0A]) (map meminfo_line es)))
      = (map dropCR (map meminfo_line es), None)"
    using assms by (intro scan_lines_unlines) (auto simp: list_all_iff meminfo_line_ok)
  moreover have "map dropCR (map meminfo_line es) = map meminfo_line es"
    using assms by (auto simp: list_all_iff meminfo_line_ok)
  ultimately show ?thesis by (simp add: scan_file_def meminfo_text_def comp_def)
qed

definition meminfo_map :: "(string \<times> nat \<times> uint64) list \<Rightarrow> (string \<rightharpoonup> uint64)" where
  "meminfo_map es = map_of (rev (map (\<lambda>(k, p, v). (k, v)) es))"

lemma kv_fold:
  assumes "list_all meminfo_entry es"
  shows "foldl (kv_step keys) m (map meminfo_line es)
    = (\<lambda>k. if k \<in> set keys then (m ++ meminfo_map es) k else m k)"
  using assms
proof (induction es arbitrary: m)
  case (Cons e es)
  obtain key pad v where e: "e = (key, pad, v)" by (cases e)
  have "kv_step keys m (meminfo_line e) = (if key \<in> set keys then m(key \<mapsto> v) else m)"
    using Cons.prems by (simp add: e kv_step_def meminfo_entry_def parseMemInfoLine_line)
  moreover have "meminfo_map (e # es) = [key \<mapsto> v] ++ meminfo_map es"
    by (simp add: meminfo_map_def e)
  ultimately show ?case using Cons
    by (auto simp: fun_eq_iff map_add_def split: option.splits)
qed (simp add: meminfo_map_def fun_eq_iff)

lemma parseKeyValueKB_text:
  assumes "list_all meminfo_entry es" and "fs path = Inr (meminfo_text es, None)"
  shows "parseKeyValueKB fs path keys = Inr (\<lambda>k. if k \<in> set keys then meminfo_map es k else None)"
  using assms by (simp add: parseKeyValueKB_def scan_meminfo kv_fold fun_eq_iff map_add_def
      split: option.splits)


subsection \<open>The percentages\<close>

definition ureal :: "uint64 \<Rightarrow> real" where
  "ureal w = of_int (uint w)"

lemma ureal_le [simp]: "ureal a \<le> ureal b \<longleftrightarrow> uint a \<le> uint b"
  by (simp only: ureal_def of_int_le_iff)

lemma ureal_nonneg [simp]: "0 \<le> ureal a"
  by (simp only: ureal_def of_int_0_le_iff) simp

lemma ureal_le_64: "ureal w \<le> 2 ^ 64"
proof -
  have "uint w < 2 ^ 64" using uint_range_size [of w] by (simp add: word_size)
  then have "real_of_int (uint w) \<le> of_int (2 ^ 64)" by (simp only: of_int_le_iff)
  then show ?thesis by (simp only: ureal_def of_int_power of_int_numeral)
qed

lemma ureal_ge_1: "b \<noteq> 0 \<Longrightarrow> 1 \<le> ureal b"
proof -
  assume "b \<noteq> 0"
  then have "1 \<le> uint b" using uint_0_iff [of b] by (simp add: int_one_le_iff_zero_less order_less_le)
  then have "real_of_int 1 \<le> of_int (uint b)" by (simp only: of_int_le_iff)
  then show ?thesis by (simp only: ureal_def of_int_1)
qed

lemma uint64_f64:
  "wf_f64 (f64_of_uint64 w)" "finite_f64 (f64_of_uint64 w)"
  "val (f64_of_uint64 w) = rnds (ureal w)"
proof -
  have "rnds (ureal w) \<le> rnds (2 ^ 64)" by (intro rnds_mono ureal_le_64)
  also have "\<dots> = 2 ^ 64" using rnds_exact [of 1 64] by simp
  also have "\<dots> < f64_max_pow"
    unfolding f64_max_pow_def by simp
  finally have b: "rnds (ureal w) < f64_max_pow" .
  moreover have "0 \<le> rnds (ureal w)" by (intro rnds_nonneg ureal_nonneg)
  ultimately show fin: "finite_f64 (f64_of_uint64 w)"
    unfolding f64_of_uint64_def f64_of_int_props(2) by (simp add: ureal_def)
  show "wf_f64 (f64_of_uint64 w)" by (simp add: f64_of_uint64_def f64_of_int_props(1))
  show "val (f64_of_uint64 w) = rnds (ureal w)"
    using fin unfolding f64_of_uint64_def ureal_def by (rule f64_of_int_props(3))
qed

lemma f64_small_const:
  "wf_f64 (f64_of_int 10)" "finite_f64 (f64_of_int 10)" "val (f64_of_int 10) = 10"
  "wf_f64 (f64_of_int 100)" "finite_f64 (f64_of_int 100)" "val (f64_of_int 100) = 100"
  using f64_of_int_exact [of 10] f64_of_int_exact [of 100] by (simp_all add: f64_of_int_props(1))

text \<open>A float64 with a value between zero and a small bound.\<close>

definition f64_in :: "int \<Rightarrow> f64 \<Rightarrow> bool" where
  "f64_in n x \<longleftrightarrow> wf_f64 x \<and> finite_f64 x \<and> 0 \<le> val x \<and> val x \<le> of_int n"

lemma rnds_in:
  assumes "0 \<le> x" "x \<le> of_int n" "n < 2 ^ 53"
  shows "0 \<le> rnds x" "rnds x \<le> of_int n" "\<bar>rnds x\<bar> < f64_max_pow"
proof -
  have n: "0 \<le> n" using assms(1,2) by (metis of_int_0_le_iff order_trans)
  show 0: "0 \<le> rnds x" using assms(1) by (rule rnds_nonneg)
  have "rnds x \<le> rnds (of_int n)" using assms(2) by (rule rnds_mono)
  then show le: "rnds x \<le> of_int n" using assms(3) n by (simp add: rnds_int)
  have "\<bar>real_of_int n\<bar> < f64_max_pow" using f64_max_pow_big [of n] assms(3) n by simp
  with 0 le show "\<bar>rnds x\<bar> < f64_max_pow" by linarith
qed

lemma f64_mult_in:
  assumes "wf_f64 x" "finite_f64 x" "wf_f64 y" "finite_f64 y"
    and "0 \<le> val x * val y" "val x * val y \<le> of_int n" "n < 2 ^ 53"
  shows "f64_in n (f64_mult x y)" "val (f64_mult x y) = rnds (val x * val y)"
  using f64_mult_props [OF assms(1,3,2,4)] rnds_in [OF assms(5-7)] by (simp_all add: f64_in_def)

lemma f64_div_in:
  assumes "wf_f64 x" "finite_f64 x" "wf_f64 y" "finite_f64 y" "val y \<noteq> 0"
    and "0 \<le> val x / val y" "val x / val y \<le> of_int n" "n < 2 ^ 53"
  shows "f64_in n (f64_div x y)" "val (f64_div x y) = rnds (val x / val y)"
  using f64_div_props [OF assms(1,3,2,4,5)] rnds_in [OF assms(6-8)] by (simp_all add: f64_in_def)

lemma rnds_abs_error:
  assumes "0 \<le> x" "x \<le> M" "1 \<le> M"
  shows "\<bar>rnds x - x\<bar> \<le> M / 2 ^ 53"
proof -
  define t :: real where "t = 2 powi (- 1022)"
  have rel: "\<bar>rnds x - x\<bar> \<le> x / 2 ^ 53" if "t \<le> x"
  proof -
    have "\<bar>rnds x - x\<bar> \<le> \<bar>x\<bar> / 2 ^ 53"
      using that unfolding t_def by (intro rnds_rel_error) (simp only: abs_of_nonneg [OF assms(1)])
    then show ?thesis unfolding abs_of_nonneg [OF assms(1)] .
  qed
  have "rnds (of_int 1 * 2 powi (- 1022)) = of_int 1 * 2 powi (- 1022)"
    by (rule rnds_exact) simp_all
  then have ft: "rnds t = t" by (simp only: t_def of_int_1 mult_1_left)
  have "t \<le> 2 powi (- 53)" unfolding t_def by (rule powi_2_mono) simp
  also have "\<dots> = 1 / 2 ^ 53" by (subst power_int_minus) (simp add: inverse_eq_divide)
  finally have small: "t \<le> 1 / 2 ^ 53" .
  show ?thesis
  proof (cases "t \<le> x")
    case True
    have "x / 2 ^ 53 \<le> M / 2 ^ 53" using assms(2) by (intro divide_right_mono) simp_all
    with rel [OF True] show ?thesis by linarith
  next
    case False
    then have "rnds x \<le> t" using rnds_mono [of x t] ft by simp
    moreover have "1 / 2 ^ 53 \<le> M / 2 ^ 53" using assms(3) by (intro divide_right_mono) simp_all
    ultimately show ?thesis using False small rnds_nonneg [OF assms(1)] assms(1) by linarith
  qed
qed

text \<open>
  The share of b that a is, in percent: within range, and off by less than a twentieth plus
  the rounding of five float64 operations.
\<close>

lemma rnds_of_int_const: "rnds 1 = 1" "rnds 100 = 100" "rnds 1000 = 1000"
  using rnds_int [of 1] rnds_int [of 100] rnds_int [of 1000] by simp_all

lemma percent_in:
  assumes "uint a \<le> uint b" "b \<noteq> 0"
  shows "f64_in 100 (percent a b)"
    and "val (percent a b) = rnds (rnds (rnds (ureal a) / rnds (ureal b)) * 100)"
proof -
  let ?q = "f64_div (f64_of_uint64 a) (f64_of_uint64 b)"
  have b1: "1 \<le> rnds (ureal b)"
    using rnds_mono [OF ureal_ge_1 [OF assms(2)]] by (simp add: rnds_of_int_const)
  have ab: "rnds (ureal a) \<le> rnds (ureal b)" by (intro rnds_mono) (simp add: assms(1))
  have a0: "0 \<le> rnds (ureal a)" by (intro rnds_nonneg ureal_nonneg)
  have q: "f64_in 1 ?q" "val ?q = rnds (rnds (ureal a) / rnds (ureal b))"
    using f64_div_in [of "f64_of_uint64 a" "f64_of_uint64 b" 1] b1 ab a0 by (simp_all add: uint64_f64)
  have "f64_in 100 (f64_mult ?q (f64_of_int 100))
      \<and> val (f64_mult ?q (f64_of_int 100)) = rnds (val ?q * 100)"
    using f64_mult_in [of ?q "f64_of_int 100" 100] q(1) by (simp add: f64_small_const f64_in_def)
  then show "f64_in 100 (percent a b)"
    and "val (percent a b) = rnds (rnds (rnds (ureal a) / rnds (ureal b)) * 100)"
    by (simp_all add: percent_def q(2))
qed

lemma round_tenth_in:
  assumes "f64_in 100 x"
  shows "f64_in 100 (round_tenth x)"
    and "val (round_tenth x) = rnds (of_int (rround (rnds (val x * 10))) / 10)"
proof -
  let ?m = "f64_mult x (f64_of_int 10)"
  have m: "f64_in 1000 ?m" "val ?m = rnds (val x * 10)"
    using f64_mult_in [of x "f64_of_int 10" 1000] assms by (simp_all add: f64_in_def f64_small_const)
  then have "rround (of_int 0) \<le> rround (val ?m)" "rround (val ?m) \<le> rround (of_int 1000)"
    by (intro rround_mono; simp add: f64_in_def)+
  then have r: "0 \<le> rround (val ?m)" "rround (val ?m) \<le> 1000" by (simp_all only: rround_of_int)
  have w: "wf_f64 (math_Round ?m)" "finite_f64 (math_Round ?m)"
    "val (math_Round ?m) = of_int (rround (val ?m))"
    using math_Round_props [of ?m] m(1) by (simp_all add: f64_in_def)
  have r': "0 \<le> real_of_int (rround (val ?m))" "real_of_int (rround (val ?m)) \<le> 1000"
    using r by simp_all
  have "f64_in 100 (round_tenth x) \<and> val (round_tenth x) = rnds (val (math_Round ?m) / 10)"
    using f64_div_in [OF w(1,2), of "f64_of_int 10" 100] r' w(3)
    by (simp add: round_tenth_def f64_small_const)
  then show "f64_in 100 (round_tenth x)"
    and "val (round_tenth x) = rnds (of_int (rround (rnds (val x * 10))) / 10)"
    by (simp_all add: w(3) m(2))
qed

lemma rround_error: "\<bar>of_int (rround x) - x\<bar> \<le> 1 / 2"
proof -
  have "\<bar>of_int \<lfloor>y + 1 / 2\<rfloor> - y\<bar> \<le> 1 / 2" for y :: real
    using floor_correct [of "y + 1 / 2"] by linarith
  note b = this
  show ?thesis
  proof (cases "x < 0")
    case True
    have "\<bar>of_int (- \<lfloor>- x + 1 / 2\<rfloor>) - x\<bar> = \<bar>of_int \<lfloor>- x + 1 / 2\<rfloor> - (- x)\<bar>"
      by linarith
    then show ?thesis using b [of "- x"] True by (simp only: rround_def if_True)
  next
    case False
    then show ?thesis using b [of x] by (simp only: rround_def if_False)
  qed
qed

lemma ratio_error:
  assumes c: "0 \<le> c" "c \<le> (d::real)" "0 < d"
    and ra: "\<bar>ra - c\<bar> \<le> c / 2 ^ 53" and rb: "\<bar>rb - d\<bar> \<le> d / 2 ^ 53"
  shows "\<bar>ra / rb - c / d\<bar> \<le> 3 / 2 ^ 53"
proof -
  define u :: real where "u = 1 / 2 ^ 53"
  have u: "0 < u" "u < 1 / 4" by (simp_all add: u_def)
  have "d * u < d * (1 / 4)" using u c(3) by (intro mult_strict_left_mono)
  moreover have rbu: "\<bar>rb - d\<bar> \<le> d * u" using rb by (simp add: u_def)
  ultimately have rb0: "d * (3 / 4) < rb" by linarith
  then have pos: "0 < rb" using c(3) by linarith
  have "ra / rb - c / d = ((ra - c) * d - c * (rb - d)) / (rb * d)"
    using pos c(3) by (simp add: field_simps)
  moreover have "\<bar>(ra - c) * d - c * (rb - d)\<bar> \<le> 2 * (c * d * u)"
  proof -
    have "\<bar>(ra - c) * d\<bar> \<le> c * u * d" using ra c(3) by (simp add: abs_mult u_def mult_right_mono)
    moreover have "\<bar>c * (rb - d)\<bar> \<le> c * (d * u)"
      using mult_left_mono [OF rbu c(1)] c(1) by (simp add: abs_mult)
    ultimately show ?thesis by (simp add: algebra_simps abs_if split: if_splits)
  qed
  then have "\<bar>(ra - c) * d - c * (rb - d)\<bar> / (rb * d) \<le> 2 * (c * d * u) / (rb * d)"
    using pos c(3) by (intro divide_right_mono) simp_all
  moreover have "\<bar>((ra - c) * d - c * (rb - d)) / (rb * d)\<bar>
      = \<bar>(ra - c) * d - c * (rb - d)\<bar> / (rb * d)"
    using pos c(3) by (simp add: abs_mult)
  ultimately have "\<bar>ra / rb - c / d\<bar> \<le> 2 * (c * d * u) / (rb * d)" by (simp only:)
  also have "\<dots> = 2 * u * (c / rb)" using c(3) by simp
  also have "\<dots> \<le> 2 * u * (4 / 3)"
  proof (intro mult_left_mono)
    have "c < rb * (4 / 3)" using rb0 c(2) by linarith
    then show "c / rb \<le> 4 / 3" using pos by (simp add: divide_le_eq mult.commute)
  qed (use u in simp)
  also have "\<dots> \<le> 3 * u" using u by simp
  finally show ?thesis by (simp add: u_def)
qed

lemma chain_error:
  fixes x ratio q p t r out :: real
  assumes "\<bar>ratio - x\<bar> \<le> 3 / 2 ^ 53" "\<bar>q - ratio\<bar> \<le> 1 / 2 ^ 53" "\<bar>p - q * 100\<bar> \<le> 100 / 2 ^ 53"
    "\<bar>t - p * 10\<bar> \<le> 1000 / 2 ^ 53" "\<bar>r - t\<bar> \<le> 1 / 2" "\<bar>out - r / 10\<bar> \<le> 100 / 2 ^ 53"
  shows "\<bar>out - 100 * x\<bar> \<le> 1 / 20 + 1 / 10 ^ 12"
proof -
  define u :: real where "u = 1 / 2 ^ 53"
  have u: "0 < u" "u * 10 ^ 15 \<le> 1" by (simp_all add: u_def)
  have "\<bar>ratio - x\<bar> \<le> 3 * u" "\<bar>q - ratio\<bar> \<le> u" "\<bar>p - q * 100\<bar> \<le> 100 * u"
    "\<bar>t - p * 10\<bar> \<le> 1000 * u" "\<bar>out - r / 10\<bar> \<le> 100 * u"
    using assms by (simp_all add: u_def)
  then show ?thesis using u assms(5) unfolding abs_le_iff by simp
qed

lemma percent_error:
  assumes "uint a \<le> uint b" "b \<noteq> 0"
  shows "\<bar>val (round_tenth (percent a b)) - 100 * (ureal a / ureal b)\<bar> \<le> 1 / 20 + 1 / 10 ^ 12"
proof -
  let ?x = "ureal a / ureal b" and ?ratio = "rnds (ureal a) / rnds (ureal b)"
  let ?q = "rnds ?ratio" let ?p = "rnds (?q * 100)" let ?t = "rnds (?p * 10)"
  let ?r = "real_of_int (rround ?t)"
  have d1: "1 \<le> ureal b" using assms(2) by (rule ureal_ge_1)
  have rel: "\<bar>rnds (ureal w) - ureal w\<bar> \<le> ureal w / 2 ^ 53" for w
  proof (cases "w = 0")
    case True
    then show ?thesis by (simp add: ureal_def)
  next
    case False
    then show ?thesis using rnds_abs_error [of "ureal w" "ureal w"] ureal_ge_1 by simp
  qed
  have e1: "\<bar>?ratio - ?x\<bar> \<le> 3 / 2 ^ 53" by (rule ratio_error) (use d1 rel assms(1) in simp_all)
  have b1: "1 \<le> rnds (ureal b)" using rnds_mono [OF d1] by (simp add: rnds_of_int_const)
  have ab: "rnds (ureal a) \<le> rnds (ureal b)" by (intro rnds_mono) (simp add: assms(1))
  have "0 \<le> rnds (ureal a)" by (intro rnds_nonneg ureal_nonneg)
  then have q0: "0 \<le> ?ratio" "?ratio \<le> 1" using b1 ab by simp_all
  have e2: "\<bar>?q - ?ratio\<bar> \<le> 1 / 2 ^ 53" using q0 by (intro rnds_abs_error) simp_all
  have q: "0 \<le> ?q" "?q \<le> 1" using rnds_in [of ?ratio 1] q0 by simp_all
  have e3: "\<bar>?p - ?q * 100\<bar> \<le> 100 / 2 ^ 53" using q by (intro rnds_abs_error) simp_all
  have p: "0 \<le> ?p" "?p \<le> 100" using rnds_in [of "?q * 100" 100] q by simp_all
  have e4: "\<bar>?t - ?p * 10\<bar> \<le> 1000 / 2 ^ 53" using p by (intro rnds_abs_error) simp_all
  have t: "0 \<le> ?t" "?t \<le> 1000" using rnds_in [of "?p * 10" 1000] p by simp_all
  have e5: "\<bar>?r - ?t\<bar> \<le> 1 / 2" by (rule rround_error)
  have "rround (of_int 0) \<le> rround ?t" "rround ?t \<le> rround (of_int 1000)"
    using t by (intro rround_mono; simp)+
  then have r: "0 \<le> rround ?t" "rround ?t \<le> 1000" by (simp_all only: rround_of_int)
  then have "0 \<le> ?r / 10" "?r / 10 \<le> 100" by simp_all
  then have e6: "\<bar>rnds (?r / 10) - ?r / 10\<bar> \<le> 100 / 2 ^ 53" by (intro rnds_abs_error) simp_all
  have v: "val (round_tenth (percent a b)) = rnds (?r / 10)"
    using round_tenth_in(2) [OF percent_in(1) [OF assms]] by (simp add: percent_in(2) [OF assms])
  have "\<bar>rnds (?r / 10) - 100 * ?x\<bar> \<le> 1 / 20 + 1 / 10 ^ 12"
    by (rule chain_error [OF e1 e2 e3 e4 e5 e6])
  then show ?thesis by (simp only: v)
qed

subsection \<open>The aggregate line of /proc/stat\<close>

definition cpu_line :: "uint64 list \<Rightarrow> string" where
  "cpu_line vs = ''cpu '' @ concat (map (\<lambda>w. CHR '' '' # w) (map (\<lambda>v. dec_digits (uint v)) vs))"

lemma Fields_cpu_line: "Fields (cpu_line vs) = ''cpu'' # map (\<lambda>v. dec_digits (uint v)) vs"
proof -
  let ?ws = "map (\<lambda>v. dec_digits (uint (v :: uint64))) vs"
  have w: "list_all is_word ?ws" by (simp add: list_all_iff digits_is_word)
  have c: "list_all (\<lambda>c. \<not> space_byte c) ''cpu''"
    by code_simp
  have "Fields (cpu_line vs) = fields_loop [] (''cpu'' @ CHR '' '' # concat (map (\<lambda>w. CHR '' '' # w) ?ws))"
    by (simp add: Fields_def cpu_line_def)
  also have "\<dots> = fields_loop (rev ''cpu'') (CHR '' '' # concat (map (\<lambda>w. CHR '' '' # w) ?ws))"
    using fields_loop_word [OF c, of "[]"] by (simp only: append_Nil2)
  also have "\<dots> = ''cpu'' # ?ws"
    unfolding fields_loop_space fields_loop_words [OF w] by simp
  finally show ?thesis .
qed

lemma cpu_fields_dec:
  "cpu_fields i t (map (\<lambda>v. dec_digits (uint v)) vs)
     = Inr \<lparr>total = total t + sum_list vs,
            idle = (if i \<le> 3 \<and> 3 < i + length vs then vs ! (3 - i) else idle t)\<rparr>"
proof (induction vs arbitrary: i t)
  case (Cons v vs)
  consider "i < 3" | "i = 3" | "3 < i" by linarith
  then show ?case
  proof cases
    case 1
    then have "3 - i = Suc (3 - Suc i)" by simp
    with 1 show ?thesis using Cons by (simp add: Let_def add.assoc)
  qed (use Cons in \<open>simp_all add: Let_def add.assoc\<close>)
qed auto

text \<open>
  The aggregate line as the kernel prints it reads back as the sum of its first eight
  counters, modulo \<open>2 ^ 64\<close>, and its fourth counter as the idle time; a line of fewer than
  four counters is an error.
\<close>

lemma parseCPULine_line:
  "parseCPULine print (cpu_line vs)
     = (if length vs < 4
        then Inl (Errorf (''unexpected cpu line format: '' @ strconv_Quote print (cpu_line vs)))
        else Inr \<lparr>total = sum_list (take 8 vs), idle = vs ! 3\<rparr>)"
proof -
  have "take (if 8 < length vs then 8 else length vs) (map f vs) = map f (take 8 vs)"
    for f :: "uint64 \<Rightarrow> string"
    by (simp add: take_map)
  then show ?thesis
    by (simp add: parseCPULine_def Fields_cpu_line Let_def cpu_fields_dec)
qed

text \<open>
  C35: between two samples in which the idle counter moved no further than the total, the CPU
  usage is a finite number from 0 to 100 that is off by less than 0.05 (and the rounding of
  the float64 operations) from the exact share of busy time; counters may wrap in between.
\<close>

theorem sampleCPUUsage_bounds:
  assumes "readCPUTicks print fs path = Inr t1" and "readCPUTicks print (between fs) path = Inr t2"
    and "idle t2 - idle t1 \<le> total t2 - total t1"
  shows "\<exists>p. sampleCPUUsageBetween print fs path between = Inr p \<and> f64_in 100 p
    \<and> (let busy = (total t2 - total t1) - (idle t2 - idle t1); all = total t2 - total t1
       in if all = 0 then val p = 0
          else \<bar>val p - 100 * (ureal busy / ureal all)\<bar> \<le> 1 / 20 + 1 / 10 ^ 12)"
proof -
  let ?all = "total t2 - total t1" and ?idle = "idle t2 - idle t1"
  have s: "sampleCPUUsageBetween print fs path between = Inr (cpu_percent t1 t2)"
    using assms(1,2) by (simp add: sampleCPUUsageBetween_def)
  show ?thesis
  proof (cases "?all = 0")
    case True
    then show ?thesis using s f64_of_int_exact [of 0] f64_of_int_props(1) [of 0]
      by (simp add: cpu_percent_def Let_def f64_in_def)
  next
    case False
    have "?all - ?idle \<le> ?all" using assms(3) by (rule word_sub_le)
    then have "uint (?all - ?idle) \<le> uint ?all" by (simp add: word_le_def)
    then show ?thesis
      using s False percent_error round_tenth_in(1) [OF percent_in(1)]
      by (simp add: cpu_percent_def Let_def)
  qed
qed

text \<open>A /proc/stat that begins with its aggregate line.\<close>

definition stat_text :: "uint64 list \<Rightarrow> bytes" where
  "stat_text vs = cpu_line vs @ [CHR 0x0A]"

lemma cpu_line_length: "length (cpu_line vs) \<le> 4 + 21 * length vs"
proof -
  have "length (concat (map (\<lambda>w. CHR '' '' # w) (map (\<lambda>v. dec_digits (uint v)) vs)))
      \<le> 21 * length vs" for vs :: "uint64 list"
  proof (induction vs)
    case (Cons v vs)
    then show ?case using dec_digits_uint64_length [of v] by simp
  qed simp
  from this [of vs] show ?thesis by (simp add: cpu_line_def)
qed

lemma cpu_line_chars: "CHR 0x0A \<notin> set (cpu_line vs)" "CHR 0x0D \<notin> set (cpu_line vs)"
proof -
  have "CHR 0x0A \<notin> set (dec_digits (uint (v :: uint64)))"
    "CHR 0x0D \<notin> set (dec_digits (uint (v :: uint64)))" for v
    using dec_digits_set [of "uint v"] by auto
  then show "CHR 0x0A \<notin> set (cpu_line vs)" "CHR 0x0D \<notin> set (cpu_line vs)"
    by (auto simp: cpu_line_def)
qed

lemma readCPUTicks_stat:
  assumes "fs path = Inr (stat_text vs, None)" and "4 \<le> length vs" and "length vs < 1000"
  shows "readCPUTicks print fs path = Inr \<lparr>total = sum_list (take 8 vs), idle = vs ! 3\<rparr>"
proof -
  have n: "CHR 0x0A \<notin> set (cpu_line vs)" "CHR 0x0D \<notin> set (cpu_line vs)"
    by (rule cpu_line_chars)+
  have "length (cpu_line vs) < 65536" using cpu_line_length [of vs] assms(3) by simp
  with n(1) have "scan_lines (stat_text vs) = ([dropCR (cpu_line vs)], None)"
    using scan_lines_unlines [of "[cpu_line vs]"] by (simp add: stat_text_def)
  moreover have "dropCR (cpu_line vs) = cpu_line vs"
    using n(2) last_in_set [of "cpu_line vs"] by (metis dropCR_def)
  ultimately have "scan_file (stat_text vs, None) = ([cpu_line vs], None)"
    by (simp add: scan_file_def)
  moreover have "HasPrefix (cpu_line vs) ''cpu ''" by (simp add: HasPrefix_def cpu_line_def)
  ultimately show ?thesis
    using assms(1,2) parseCPULine_line by (simp add: readCPUTicks_def not_less)
qed

definition ex_stat :: "uint64 list \<Rightarrow> files" where
  "ex_stat vs = (\<lambda>path. Inr (stat_text vs, None))"

theorem sampleCPUUsage_bounds_witness:
  "\<exists>p. sampleCPUUsageBetween (\<lambda>_. False) (ex_stat [10, 0, 10, 80, 0]) ''/proc/stat''
          (\<lambda>_. ex_stat [40, 0, 20, 140, 0]) = Inr p
     \<and> f64_in 100 p \<and> \<bar>val p - 40\<bar> \<le> 1 / 20 + 1 / 10 ^ 12"
proof -
  let ?t1 = "\<lparr>total = 100, idle = 80\<rparr>" and ?t2 = "\<lparr>total = 200, idle = 140\<rparr>"
  have a: "readCPUTicks (\<lambda>_. False) (ex_stat [10, 0, 10, 80, 0]) ''/proc/stat'' = Inr ?t1"
    using readCPUTicks_stat [of "ex_stat [10, 0, 10, 80, 0]" "''/proc/stat''" "[10, 0, 10, 80, 0]"]
    by (simp add: ex_stat_def)
  have b: "readCPUTicks (\<lambda>_. False) ((\<lambda>_. ex_stat [40, 0, 20, 140, 0]) (ex_stat [10, 0, 10, 80, 0]))
      ''/proc/stat'' = Inr ?t2"
    using readCPUTicks_stat [of "ex_stat [40, 0, 20, 140, 0]" "''/proc/stat''" "[40, 0, 20, 140, 0]"]
    by (simp add: ex_stat_def)
  have c: "idle ?t2 - idle ?t1 \<le> total ?t2 - total ?t1" by simp
  show ?thesis using sampleCPUUsage_bounds [OF a b c] by (simp add: Let_def ureal_def)
qed

text \<open>
  The hypothesis is needed: /proc/stat documents that its counters may decrease, and when
  the idle counter falls the usage reported passes 100 percent (here 200).
\<close>

lemma sampleCPUUsage_over_100:
  "\<exists>p. sampleCPUUsageBetween (\<lambda>_. False) (ex_stat [10, 0, 10, 80, 0]) ''/proc/stat''
          (\<lambda>_. ex_stat [20, 0, 20, 70, 0]) = Inr p \<and> val p = 200"
proof -
  have a: "readCPUTicks (\<lambda>_. False) (ex_stat [10, 0, 10, 80, 0]) ''/proc/stat''
      = Inr \<lparr>total = 100, idle = 80\<rparr>"
    using readCPUTicks_stat [of "ex_stat [10, 0, 10, 80, 0]" "''/proc/stat''" "[10, 0, 10, 80, 0]"]
    by (simp add: ex_stat_def)
  have b: "readCPUTicks (\<lambda>_. False) (ex_stat [20, 0, 20, 70, 0]) ''/proc/stat''
      = Inr \<lparr>total = 110, idle = 70\<rparr>"
    using readCPUTicks_stat [of "ex_stat [20, 0, 20, 70, 0]" "''/proc/stat''" "[20, 0, 20, 70, 0]"]
    by (simp add: ex_stat_def)
  have "cpu_percent \<lparr>total = 100, idle = 80\<rparr> \<lparr>total = 110, idle = 70\<rparr> = f64_of_int 200"
    by code_simp
  then show ?thesis using a b f64_of_int_exact [of 200]
    by (simp add: sampleCPUUsageBetween_def)
qed

subsection \<open>Memory\<close>

text \<open>What the kernel estimates as available, or the sum the code falls back to.\<close>

definition available_of :: "(string \<rightharpoonup> uint64) \<Rightarrow> uint64" where
  "available_of kv =
     (case kv ''MemAvailable'' of
        Some a \<Rightarrow> a
      | None \<Rightarrow> map_get kv ''MemFree'' + map_get kv ''Buffers'' + map_get kv ''Cached'')"

text \<open>
  C34: on the text of a /proc/meminfo whose total is below \<open>2 ^ 54\<close> kB, \<open>readMemInfo\<close>
  returns the exact total and used bytes and a percentage from 0 to 100 that is off by less
  than 0.05 (and the rounding of the float64 operations).
\<close>

theorem readMemInfo_spec:
  assumes "list_all meminfo_entry es" and "fs path = Inr (meminfo_text es, None)"
    and "meminfo_map es ''MemTotal'' = Some t" and "0 < uint t" and "uint t < 2 ^ 54"
  shows "\<exists>m. readMemInfo fs path = Inr m
    \<and> uint (totalBytes m) = uint t * 1024
    \<and> uint (usedBytes m) = max 0 (uint t - uint (available_of (meminfo_map es))) * 1024
    \<and> f64_in 100 (usagePercent m)
    \<and> \<bar>val (usagePercent m) - 100 * (ureal (usedBytes m) / ureal (totalBytes m))\<bar> \<le> 1 / 20 + 1 / 10 ^ 12"
proof -
  let ?a = "available_of (meminfo_map es)"
  let ?m = "memStats_of t ?a"
  have "t \<noteq> 0" using assms(4) by auto
  then have r: "readMemInfo fs path = Inr ?m"
    using parseKeyValueKB_text [of es fs path, OF assms(1,2)] assms(3)
    by (simp add: readMemInfo_def map_get_def available_of_def split: option.splits)
  have tot: "uint (totalBytes ?m) = uint t * 1024"
    using assms(5) by (simp add: memStats_of_def Let_def uint_word_ariths)
  have used: "uint (usedBytes ?m) = max 0 (uint t - uint ?a) * 1024"
  proof (cases "?a < t")
    case True
    then have le: "uint ?a < uint t" by (simp add: word_less_def)
    have "uint (t - ?a) = uint t - uint ?a" using le by (simp add: uint_sub_if')
    then have "uint (usedBytes ?m) = ((uint t - uint ?a) * 1024) mod 2 ^ 64"
      using True by (simp add: memStats_of_def Let_def uint_word_ariths mod_simps)
    also have "\<dots> = (uint t - uint ?a) * 1024"
    proof (rule mod_pos_pos_trivial)
      have "uint t - uint ?a < 2 ^ 54" using assms(5) uint_ge_0 [of ?a] by linarith
      then show "(uint t - uint ?a) * 1024 < 2 ^ 64" by simp
    qed (use le in simp)
    finally show ?thesis using le by simp
  next
    case False
    then show ?thesis by (simp add: memStats_of_def Let_def word_less_def)
  qed
  have le: "uint (usedBytes ?m) \<le> uint (totalBytes ?m)" using tot used assms(4) by simp
  have nz: "totalBytes ?m \<noteq> 0" using tot assms(4) by auto
  have p: "usagePercent ?m = round_tenth (percent (usedBytes ?m) (totalBytes ?m))"
    by (simp add: memStats_of_def Let_def)
  show ?thesis
    using r tot used percent_error [OF le nz] round_tenth_in(1) [OF percent_in(1) [OF le nz]]
    by (auto simp: p)
qed

definition ex_meminfo :: "(string \<times> nat \<times> uint64) list" where
  "ex_meminfo = [(''MemTotal'', 7, 16000), (''MemFree'', 8, 1000), (''MemAvailable'', 3, 4000)]"

theorem readMemInfo_spec_witness:
  "\<exists>m. readMemInfo (\<lambda>_. Inr (meminfo_text ex_meminfo, None)) ''/proc/meminfo'' = Inr m
    \<and> uint (totalBytes m) = 16384000 \<and> uint (usedBytes m) = 12288000 \<and> f64_in 100 (usagePercent m)"
proof -
  have "list_all meminfo_entry ex_meminfo" by (simp add: ex_meminfo_def meminfo_entry_def)
  then show ?thesis
    using readMemInfo_spec [of ex_meminfo "\<lambda>_. Inr (meminfo_text ex_meminfo, None)" "''/proc/meminfo''" 16000]
    by (simp add: ex_meminfo_def meminfo_map_def available_of_def) blast
qed

subsection \<open>The percentages are finite\<close>

text \<open>
  Without any assumption on the counters: a share of a total that is not zero is a finite
  float64, so JSON can write it; a share of a zero total is not.
\<close>

definition f64_below :: "nat \<Rightarrow> f64 \<Rightarrow> bool" where
  "f64_below k x \<longleftrightarrow> wf_f64 x \<and> finite_f64 x \<and> 0 \<le> val x \<and> val x \<le> 2 ^ k"

lemma rnds_pow:
  assumes "0 \<le> x" "x \<le> 2 ^ k" "k \<le> 900"
  shows "0 \<le> rnds x" "rnds x \<le> 2 ^ k" "\<bar>rnds x\<bar> < f64_max_pow"
proof -
  show 0: "0 \<le> rnds x" using assms(1) by (rule rnds_nonneg)
  have "rnds (2 ^ k) = 2 ^ k" using rnds_exact [of 1 "int k"] assms(3) by simp
  then show le: "rnds x \<le> 2 ^ k" using rnds_mono [OF assms(2)] by simp
  have "(2::real) ^ k = 2 powi int k" by simp
  also have "\<dots> < f64_max_pow"
    unfolding f64_max_pow_def using assms(3) by (intro power_int_strict_increasing) simp_all
  finally show "\<bar>rnds x\<bar> < f64_max_pow" using 0 le by simp
qed

lemma f64_mult_below:
  assumes "f64_below j x" "f64_below k y" "j + k \<le> 900"
  shows "f64_below (j + k) (f64_mult x y)"
proof -
  have "val x * val y \<le> 2 ^ j * 2 ^ k" using assms(1,2) by (intro mult_mono) (auto simp: f64_below_def)
  then have p: "0 \<le> val x * val y" "val x * val y \<le> 2 ^ (j + k)"
    using assms(1,2) by (simp_all add: f64_below_def power_add)
  show ?thesis
    using f64_mult_props [of x y] rnds_pow [OF p assms(3)] assms(1,2) by (simp add: f64_below_def)
qed

lemma f64_div_below:
  assumes "f64_below k x" "wf_f64 y" "finite_f64 y" "1 \<le> val y" "k \<le> 900"
  shows "f64_below k (f64_div x y)"
proof -
  have "val x / val y \<le> val x / 1" using assms(1,4) by (intro divide_left_mono) (auto simp: f64_below_def)
  then have p: "0 \<le> val x / val y" "val x / val y \<le> 2 ^ k"
    using assms(1,4) by (simp_all add: f64_below_def)
  show ?thesis
    using f64_div_props [of x y] rnds_pow [OF p assms(5)] assms(1-4) by (simp add: f64_below_def)
qed

lemma small_below: "f64_below 4 (f64_of_int 10)" "f64_below 7 (f64_of_int 100)"
  by (simp_all add: f64_below_def f64_small_const)

lemma uint64_below: "f64_below 64 (f64_of_uint64 w)"
  using rnds_pow [of "ureal w" 64] ureal_le_64 [of w] by (simp add: f64_below_def uint64_f64)

lemma percent_finite:
  assumes "b \<noteq> 0"
  shows "wf_f64 (round_tenth (percent a b)) \<and> finite_f64 (round_tenth (percent a b))"
proof -
  have "1 \<le> val (f64_of_uint64 b)"
    using rnds_mono [OF ureal_ge_1 [OF assms]] by (simp add: uint64_f64 rnds_of_int_const)
  then have "f64_below 64 (f64_div (f64_of_uint64 a) (f64_of_uint64 b))"
    by (intro f64_div_below) (simp_all add: uint64_below uint64_f64)
  then have p: "f64_below 71 (percent a b)"
    unfolding percent_def using f64_mult_below [of 64 _ 7, OF _ small_below(2)] by simp
  let ?m = "f64_mult (percent a b) (f64_of_int 10)"
  have m: "f64_below 75 ?m" using f64_mult_below [OF p small_below(1)] by simp
  then have w: "wf_f64 (math_Round ?m)" "finite_f64 (math_Round ?m)"
    "val (math_Round ?m) = of_int (rround (val ?m))"
    using math_Round_props [of ?m] by (simp_all add: f64_below_def)
  have "rround (of_int 0) \<le> rround (val ?m)" "rround (val ?m) \<le> rround (of_int (2 ^ 75))"
    using m by (intro rround_mono; simp add: f64_below_def)+
  then have "0 \<le> rround (val ?m)" "rround (val ?m) \<le> 2 ^ 75" by (simp_all only: rround_of_int)
  then have "0 \<le> real_of_int (rround (val ?m))" "real_of_int (rround (val ?m)) \<le> of_int (2 ^ 75)"
    by (simp_all only: of_int_0_le_iff of_int_le_iff)
  then have "f64_below 75 (math_Round ?m)" using w by (simp add: f64_below_def)
  then have "f64_below 75 (round_tenth (percent a b))"
    unfolding round_tenth_def by (intro f64_div_below) (simp_all add: f64_small_const)
  then show ?thesis by (simp add: f64_below_def)
qed

lemma percent_zero: "\<not> finite_f64 (round_tenth (percent a 0))"
proof -
  obtain s m e where a: "f64_of_uint64 a = Fin s m e"
    using uint64_f64(2) [of a] by (cases "f64_of_uint64 a") auto
  have z: "f64_of_uint64 0 = Fin False 0 (- 1074)" "f64_of_int 100 = Fin False 7036874417766400 (- 46)"
    "f64_of_int 10 = Fin False 5629499534213120 (- 49)"
    by code_simp+
  show ?thesis by (simp add: round_tenth_def percent_def a z)
qed

text \<open>
  A report of the system can be written as JSON exactly when its total memory in bytes is not
  zero (the code checks the total in kilobytes; \<open>2 ^ 54\<close> kB wrap to zero bytes).
\<close>

lemma GetSystemInfo_finite:
  assumes "GetSystemInfo print sleep n fs = Inr s"
  shows "wf_f64 (CPUUsagePercent s) \<and> finite_f64 (CPUUsagePercent s)"
    and "MemTotalBytes s \<noteq> 0 \<Longrightarrow> wf_f64 (MemUsagePercent s) \<and> finite_f64 (MemUsagePercent s)"
    and "MemTotalBytes s = 0 \<Longrightarrow> \<not> finite_f64 (MemUsagePercent s)"
proof -
  obtain mem where m: "readMemInfo fs ''/proc/meminfo'' = Inr mem"
    "MemTotalBytes s = totalBytes mem" "MemUsagePercent s = usagePercent mem"
    using assms by (auto simp: GetSystemInfo_def result_simps)
  obtain t1 t2 where c: "CPUUsagePercent s = cpu_percent t1 t2"
    using assms by (auto simp: GetSystemInfo_def sampleCPUUsage_def sampleCPUUsageBetween_def result_simps)
  show "wf_f64 (CPUUsagePercent s) \<and> finite_f64 (CPUUsagePercent s)"
    using percent_finite f64_of_int_exact [of 0] f64_of_int_props(1) [of 0]
    by (simp add: c cpu_percent_def Let_def)
  obtain tot av where t: "mem = memStats_of tot av"
    using m(1) by (auto simp: readMemInfo_def Let_def split: sum.splits option.splits if_splits)
  show "MemTotalBytes s \<noteq> 0 \<Longrightarrow> wf_f64 (MemUsagePercent s) \<and> finite_f64 (MemUsagePercent s)"
    using percent_finite by (simp add: m(2,3) t memStats_of_def Let_def)
  show "MemTotalBytes s = 0 \<Longrightarrow> \<not> finite_f64 (MemUsagePercent s)"
    using percent_zero by (simp add: m(2,3) t memStats_of_def Let_def)
qed

end
