(* ===== verification/Server_Main.thy ===== *)
theory Server_Main
  imports Enclave_Handlers Enclave_SysInfo
begin

section \<open>cmd/enclave-server/main.go: start-up, dispatch and connections\<close>

text \<open>
  The configuration from the environment, the dispatch of a request by its type, and the
  life of one connection as the list of the calls made on it.  Logging is not modelled.
\<close>

subsection \<open>Configuration\<close>

definition vsockPort :: nat where
  "vsockPort = 5000"

definition defaultMaxWorkersEnv :: string where
  "defaultMaxWorkersEnv = ''ENCLAVE_MAX_WORKERS''"

text \<open>Durations in nanoseconds.\<close>

definition readDeadline :: int where
  "readDeadline = 30 * 1000000000"

definition writeDeadline :: int where
  "writeDeadline = 30 * 1000000000"

text \<open>\<open>os.Getenv\<close> gives the empty string for a variable that is not set.\<close>

definition getRequiredEnvInt :: "(string \<Rightarrow> string) \<Rightarrow> string \<Rightarrow> int result" where
  "getRequiredEnvInt getenv key =
     (let v = getenv key in
      if v = [] then Inl (Errorf (''required environment variable '' @ key @ '' is not set''))
      else
        (case Atoi v of
           Inl _ \<Rightarrow> Inl (Errorf (''invalid value for '' @ key @ '': '' @ v @ '' (must be integer)''))
         | Inr n \<Rightarrow> Inr n))"

definition getMaxWorkers :: "(string \<Rightarrow> string) \<Rightarrow> int result" where
  "getMaxWorkers getenv =
     bind_result (getRequiredEnvInt getenv defaultMaxWorkersEnv) (\<lambda>n.
     if n < 1 then Inl (Errorf (defaultMaxWorkersEnv @ '' must be at least 1, got '' @ FormatInt (word_of_int n)))
     else Inr n)"

subsection \<open>Responses\<close>

text \<open>
  What \<open>dispatch\<close> returns, by the Go type behind its \<open>any\<close>: the map of a pong, the map of an
  error, or one of the two response structs.
\<close>

datatype response =
    Pong string int64 "SystemInfo option"
  | ErrorMap string
  | KeyReply KeyResponse
  | ArbitrationReply EnclaveArbitrationResponse

definition errorResponse :: "string \<Rightarrow> response" where
  "errorResponse msg = ErrorMap msg"

definition enc_uint64 :: "uint64 \<Rightarrow> json" where
  "enc_uint64 v = JNum (dec_digits (uint v))"

definition Marshal_SystemInfo :: "SystemInfo \<Rightarrow> json result" where
  "Marshal_SystemInfo s =
     bind_result (fmt_json_float (MemUsagePercent s)) (\<lambda>m.
     bind_result (fmt_json_float (CPUUsagePercent s)) (\<lambda>c.
     Inr (JObj [(''mem_total_bytes'', enc_uint64 (MemTotalBytes s)),
                (''mem_used_bytes'', enc_uint64 (MemUsedBytes s)),
                (''mem_usage_percent'', JNum m), (''cpu_usage_percent'', JNum c),
                (''num_cpus'', enc_int64 (word_of_int (NumCPUs s)))])))"

text \<open>\<open>encoding/json\<close> writes the keys of a map in order.\<close>

definition Marshal_response :: "wire_tags \<Rightarrow> response \<Rightarrow> bytes result" where
  "Marshal_response T r =
     (case r of
        Pong msg t sys \<Rightarrow>
          bind_result (case sys of None \<Rightarrow> Inr JNull | Some s \<Rightarrow> Marshal_SystemInfo s) (\<lambda>s.
          Inr (json_print (JObj [(''message'', enc_string msg), (''system'', s),
                                 (''timestamp'', enc_int64 t), (''type'', enc_string ''pong'')])))
      | ErrorMap msg \<Rightarrow>
          Inr (json_print (JObj [(''message'', enc_string msg), (''type'', enc_string ''error'')]))
      | KeyReply k \<Rightarrow> Inr (json_print (enc_KeyResponse T k))
      | ArbitrationReply a \<Rightarrow> Inr (json_print (enc_Response a)))"

subsection \<open>dispatch\<close>

text \<open>
  The host the server runs on: the NSM handle, the files under /proc, what they hold after a
  sleep, the number of CPUs and the environment.
\<close>

record host =
  NSM_handle :: "EnclaveAttester result"
  host_files :: files
  host_sleep :: "int \<Rightarrow> files \<Rightarrow> files"
  host_CPUs :: int
  host_env :: "string \<Rightarrow> string"

definition getEnclaveAttester :: "host \<Rightarrow> EnclaveAttester result" where
  "getEnclaveAttester H = wrap_err ''NSM unavailable'' (NSM_handle H)"

definition sysInfoOrNil :: "libs \<Rightarrow> host \<Rightarrow> SystemInfo option" where
  "sysInfoOrNil L H =
     (case GetSystemInfo (lib_print L) (host_sleep H) (host_CPUs H) (host_files H) of
        Inl err \<Rightarrow> None | Inr info \<Rightarrow> Some info)"

definition dispatch ::
  "libs \<Rightarrow> host \<Rightarrow> string \<Rightarrow> bytes \<Rightarrow> KeyManager option \<Rightarrow> response option io" where
  "dispatch L H typ body km w =
     (if typ = ''ping'' then
        let (now, w) = time_Now w
        in (Some (Pong ''arbiter enclave-server is healthy'' (word_of_int (t_sec (wall now))) (sysInfoOrNil L H)), w)
      else if typ = ''key_request'' then
        (case getEnclaveAttester H of
           Inl err \<Rightarrow> (Some (errorResponse (''failed to initialize TEE attester: '' @ error_string err)), w)
         | Inr attester \<Rightarrow>
             (case HandleKeyRequest L (Some attester) km w of
                (None, w) \<Rightarrow> (None, w)
              | (Some (Inl err), w) \<Rightarrow> (Some (errorResponse (error_string err)), w)
              | (Some (Inr resp), w) \<Rightarrow> (Some (KeyReply resp), w)))
      else if typ = ''arbitration_request'' then
        (case json_Unmarshal (dec_Request (lib_tags L)) body zero_Request of
           Inl err \<Rightarrow> (Some (errorResponse (''decode arbitration request: '' @ error_string err)), w)
         | Inr req \<Rightarrow>
             (case getEnclaveAttester H of
                Inl err \<Rightarrow> (Some (errorResponse (''failed to initialize TEE attester: '' @ error_string err)), w)
              | Inr attester \<Rightarrow>
                  (case HandleArbitrationRequest L (Some attester) km req w of
                     (r, w) \<Rightarrow> (map_option ArbitrationReply r, w))))
      else (Some (errorResponse (''unknown request type: '' @ typ)), w))"

subsection \<open>handleConnection\<close>

text \<open>
  A connection is what its methods return; a nil error is \<open>None\<close>.  \<open>conn_Read\<close> is the
  outcome of reading to the end.
\<close>

record conn =
  conn_SetReadDeadline :: "goerr option"
  conn_Read :: "bytes result"
  conn_SetWriteDeadline :: "goerr option"
  conn_Write :: "goerr option"
  conn_Close :: "goerr option"

datatype conn_event =
    SetReadDeadline int | ReadAll | SetWriteDeadline int | Write bytes | Close

definition time_ns :: "gotime \<Rightarrow> int" where
  "time_ns t = t_sec t * 1000000000 + t_ns t"

definition dec_base :: "string jdec" where
  "dec_base = dec_struct [(''type'', dec_field (\<lambda>t. t) (\<lambda>v _. v) dec_string)]"

text \<open>The body of the function up to its return or panic, with the calls it makes.\<close>

definition serve ::
  "libs \<Rightarrow> host \<Rightarrow> conn \<Rightarrow> KeyManager option \<Rightarrow> conn_event list io" where
  "serve L H c km w =
     (let (now, w) = time_Now w; ev = [SetReadDeadline (time_ns (wall now) + readDeadline)] in
      if conn_SetReadDeadline c \<noteq> None then (ev, w)
      else
        (case conn_Read c of
           Inl err \<Rightarrow> (ev @ [ReadAll], w)
         | Inr buf \<Rightarrow>
             (case json_Unmarshal dec_base buf [] of
                Inl err \<Rightarrow> (ev @ [ReadAll], w)
              | Inr base \<Rightarrow>
                  (case dispatch L H base buf km w of
                     (None, w) \<Rightarrow> (ev @ [ReadAll], w)
                   | (Some response, w) \<Rightarrow>
                       let (now, w) = time_Now w;
                           ev = ev @ [ReadAll, SetWriteDeadline (time_ns (wall now) + writeDeadline)]
                       in if conn_SetWriteDeadline c \<noteq> None then (ev, w)
                          else
                            (case Marshal_response (lib_tags L) response of
                               Inl err \<Rightarrow> (ev, w)
                             | Inr text \<Rightarrow> (ev @ [Write (text @ [CHR 0x0A])], w))))))"

text \<open>The deferred function recovers from a panic and closes the connection.\<close>

definition handleConnection ::
  "libs \<Rightarrow> host \<Rightarrow> conn \<Rightarrow> KeyManager option \<Rightarrow> conn_event list io" where
  "handleConnection L H c km w = (case serve L H c km w of (ev, w) \<Rightarrow> (ev @ [Close], w))"

end
