(* ===== verification/Server_Pool.thy ===== *)
theory Server_Pool
  imports Server_Main
begin

section \<open>cmd/enclave-server/main.go: the accept loop and its worker pool\<close>

text \<open>
  The accept loop of \<open>main\<close> and the goroutines it starts, as an interleaving: the loop
  accepts a connection and either takes a slot of the semaphore for a new worker or closes
  it at once; a worker serves its connection (which ends with the connection closed) and
  then gives its slot back.  Connections are numbered in the order they are accepted.  Here the
  end of a service is one step that may happen at any time or never; when it happens, and that
  the deadlines make it happen, is the subject of Server_Deadline.
\<close>

datatype phase = Serving | Releasing

record pool =
  capacity :: nat
  slots :: nat
  workers :: "nat \<rightharpoonup> phase"
  accepted :: nat
  closedConns :: "nat list"

text \<open>What \<open>main\<close> does before the loop; a fatal error is the message it logs.\<close>

definition start_server ::
  "crypto \<Rightarrow> host \<Rightarrow> unit result \<Rightarrow> (KeyManager \<times> pool) result io" where
  "start_server C H listen =
     bind_io (wrap_io ''ERROR: KeyManager initialization failed'' (NewKeyManager C)) (\<lambda>km.
     bind_io (lift_io (getMaxWorkers (host_env H))) (\<lambda>maxWorkers.
     bind_io (wrap_io (''ERROR: vsock listen on '' @ dec_nat vsockPort) (lift_io listen)) (\<lambda>_.
     lift_io (Inr (km, \<lparr>capacity = nat maxWorkers, slots = 0, workers = Map.empty, accepted = 0, closedConns = []\<rparr>)))))"

text \<open>The changes of state: a new worker, a connection turned away, one served, a slot given back.\<close>

definition start_worker :: "pool \<Rightarrow> pool" where
  "start_worker p = p\<lparr>slots := Suc (slots p), workers := (workers p)(accepted p \<mapsto> Serving),
                      accepted := Suc (accepted p)\<rparr>"

definition turn_away :: "pool \<Rightarrow> pool" where
  "turn_away p = p\<lparr>closedConns := accepted p # closedConns p, accepted := Suc (accepted p)\<rparr>"

definition end_service :: "nat \<Rightarrow> pool \<Rightarrow> pool" where
  "end_service c p = p\<lparr>workers := (workers p)(c \<mapsto> Releasing), closedConns := c # closedConns p\<rparr>"

definition release_slot :: "nat \<Rightarrow> pool \<Rightarrow> pool" where
  "release_slot c p = p\<lparr>slots := slots p - 1, workers := (workers p)(c := None)\<rparr>"

text \<open>
  A step of a worker: the end of \<open>handleConnection\<close> (the whole of its calls as one step), and
  the release of its slot.
\<close>

inductive worker_step :: "pool \<Rightarrow> pool \<Rightarrow> bool" where
  served: "workers p c = Some Serving \<Longrightarrow> worker_step p (end_service c p)"
| released: "workers p c = Some Releasing \<Longrightarrow> worker_step p (release_slot c p)"

text \<open>
  One step of the server: an accept that fails, one that finds a slot, one that finds none,
  and a step of a worker.
\<close>

inductive pool_step :: "pool \<Rightarrow> pool \<Rightarrow> bool" where
  accept_error: "pool_step p p"
| accept_slot: "slots p < capacity p \<Longrightarrow> pool_step p (start_worker p)"
| accept_full: "\<not> slots p < capacity p \<Longrightarrow> pool_step p (turn_away p)"
| work: "worker_step p q \<Longrightarrow> pool_step p q"

inductive_cases worker_stepE: "worker_step p q"
inductive_cases pool_stepE: "pool_step p q"

inductive reachable :: "pool \<Rightarrow> pool \<Rightarrow> bool" for p0 where
  start: "reachable p0 p0"
| step: "reachable p0 p \<Longrightarrow> pool_step p q \<Longrightarrow> reachable p0 q"

text \<open>The initial pool of a server with n workers.\<close>

definition init_pool :: "nat \<Rightarrow> pool" where
  "init_pool n = \<lparr>capacity = n, slots = 0, workers = Map.empty, accepted = 0, closedConns = []\<rparr>"

subsection \<open>The invariant\<close>

definition in_phase :: "phase \<Rightarrow> pool \<Rightarrow> nat set" where
  "in_phase ph p = {c. workers p c = Some ph}"

text \<open>
  The slots in use are the workers, never more than the capacity; no connection is closed
  twice; each accepted connection is being served or closed, never both; and a worker that
  is about to release its slot has closed its connection.
\<close>

definition pool_inv :: "pool \<Rightarrow> bool" where
  "pool_inv p \<longleftrightarrow>
     finite (dom (workers p)) \<and> slots p = card (dom (workers p)) \<and> slots p \<le> capacity p
     \<and> distinct (closedConns p)
     \<and> in_phase Serving p \<inter> set (closedConns p) = {}
     \<and> in_phase Serving p \<union> set (closedConns p) = {..<accepted p}
     \<and> in_phase Releasing p \<subseteq> set (closedConns p)"

lemma pool_inv_init: "pool_inv (init_pool n)"
  by (simp add: pool_inv_def init_pool_def in_phase_def)

lemma dom_phases: "c \<in> dom (workers p) \<longleftrightarrow> c \<in> in_phase Serving p \<or> c \<in> in_phase Releasing p"
proof (cases "workers p c")
  case (Some ph)
  then show ?thesis by (cases ph) (auto simp: in_phase_def)
qed (simp add: in_phase_def domIff)

lemma pool_inv_fresh:
  assumes "pool_inv p"
  shows "accepted p \<notin> set (closedConns p)" "accepted p \<notin> in_phase ph p" "accepted p \<notin> dom (workers p)"
proof -
  show c: "accepted p \<notin> set (closedConns p)" using assms unfolding pool_inv_def by auto
  show f: "accepted p \<notin> in_phase ph p" for ph
    using assms c unfolding pool_inv_def by (cases ph) auto
  show "accepted p \<notin> dom (workers p)" using f unfolding dom_phases by blast
qed

lemma phases_step [simp]:
  "in_phase Serving (start_worker p) = insert (accepted p) (in_phase Serving p)"
  "in_phase Releasing (start_worker p) = in_phase Releasing p - {accepted p}"
  "in_phase ph (turn_away p) = in_phase ph p"
  "in_phase Serving (end_service c p) = in_phase Serving p - {c}"
  "in_phase Releasing (end_service c p) = insert c (in_phase Releasing p)"
  "in_phase ph (release_slot c p) = in_phase ph p - {c}"
  by (auto simp: in_phase_def start_worker_def turn_away_def end_service_def release_slot_def)

lemma fields_step [simp]:
  "accepted (start_worker p) = Suc (accepted p)" "accepted (turn_away p) = Suc (accepted p)"
  "accepted (end_service c p) = accepted p" "accepted (release_slot c p) = accepted p"
  "capacity (start_worker p) = capacity p" "capacity (turn_away p) = capacity p"
  "capacity (end_service c p) = capacity p" "capacity (release_slot c p) = capacity p"
  "closedConns (start_worker p) = closedConns p" "closedConns (turn_away p) = accepted p # closedConns p"
  "closedConns (end_service c p) = c # closedConns p" "closedConns (release_slot c p) = closedConns p"
  "slots (start_worker p) = Suc (slots p)" "slots (turn_away p) = slots p"
  "slots (end_service c p) = slots p" "slots (release_slot c p) = slots p - 1"
  "workers (start_worker p) = (workers p)(accepted p \<mapsto> Serving)" "workers (turn_away p) = workers p"
  "workers (end_service c p) = (workers p)(c \<mapsto> Releasing)"
  "workers (release_slot c p) = (workers p)(c := None)"
  by (simp_all add: start_worker_def turn_away_def end_service_def release_slot_def)

lemma worker_inv:
  assumes "worker_step p q" and "pool_inv p"
  shows "pool_inv q"
  using assms
proof (induction rule: worker_step.induct)
  case (served p c)
  then have "c \<in> in_phase Serving p" "c \<in> dom (workers p)" by (auto simp: in_phase_def)
  then show ?case
    using served(2) unfolding pool_inv_def by (auto simp: insert_absorb)
next
  case (released p c)
  then have c: "c \<in> dom (workers p)" "c \<notin> in_phase Serving p" by (auto simp: in_phase_def)
  then show ?case
    using released(2) unfolding pool_inv_def by auto
qed

lemma pool_inv_step: "pool_step p q \<Longrightarrow> pool_inv p \<Longrightarrow> pool_inv q"
proof (induction rule: pool_step.induct)
  case (accept_slot p)
  note f = pool_inv_fresh [OF accept_slot(2)]
  have "insert (accepted p) (in_phase Serving p) \<union> set (closedConns p) = {..<Suc (accepted p)}"
    using accept_slot(2) unfolding pool_inv_def by (simp add: lessThan_Suc)
  then show ?case
    using accept_slot f unfolding pool_inv_def by simp
next
  case (accept_full p)
  have "in_phase Serving p \<union> insert (accepted p) (set (closedConns p)) = {..<Suc (accepted p)}"
    using accept_full(2) unfolding pool_inv_def by (simp add: lessThan_Suc)
  then show ?case
    using accept_full(2) pool_inv_fresh [OF accept_full(2)] unfolding pool_inv_def by auto
qed (auto intro: worker_inv)

lemma pool_inv_reachable: "reachable (init_pool n) p \<Longrightarrow> pool_inv p \<and> capacity p = n"
proof (induction rule: reachable.induct)
  case start
  then show ?case using pool_inv_init by (simp add: init_pool_def)
next
  case (step p q)
  then show ?case using pool_inv_step by (auto elim!: pool_step.cases worker_step.cases)
qed

subsection \<open>Properties of the server\<close>

lemma one_fate: "pool_inv p \<Longrightarrow> \<forall>c < accepted p. (workers p c = Some Serving) \<noteq> (c \<in> set (closedConns p))"
  unfolding pool_inv_def in_phase_def by fastforce

lemma turned_away:
  assumes "pool_inv p" "pool_step p q" "accepted p \<in> set (closedConns q)"
  shows "\<not> slots p < capacity p"
  using assms(2)
proof (rule pool_stepE)
  assume "worker_step p q"
  then show ?thesis using assms(3) pool_inv_fresh(1,3) [OF assms(1)] by (auto elim!: worker_stepE)
qed (use assms(3) pool_inv_fresh [OF assms(1)] in simp_all)

text \<open>
  C12: in every state the accept loop and its workers can reach, the semaphore counts exactly the workers
  that hold a slot, of which there are never more than the configured number; every accepted
  connection is either being served or closed, exactly once; and a connection is turned away
  only when every slot is taken.
\<close>

theorem pool_safe:
  assumes "reachable (init_pool n) p"
  shows "slots p = card (dom (workers p)) \<and> card (dom (workers p)) \<le> n \<and> distinct (closedConns p)
    \<and> (\<forall>c < accepted p. (workers p c = Some Serving) \<noteq> (c \<in> set (closedConns p)))
    \<and> (\<forall>q. pool_step p q \<and> accepted p \<in> set (closedConns q) \<longrightarrow> card (dom (workers p)) = n)"
proof -
  have inv: "pool_inv p" "capacity p = n" using pool_inv_reachable [OF assms] by auto
  then have "slots p = card (dom (workers p)) \<and> card (dom (workers p)) \<le> n \<and> distinct (closedConns p)"
    unfolding pool_inv_def by simp
  moreover have "card (dom (workers p)) = n" if "pool_step p q \<and> accepted p \<in> set (closedConns q)" for q
    using turned_away [OF inv(1)] that inv unfolding pool_inv_def by auto
  ultimately show ?thesis using one_fate [OF inv(1)] by blast
qed

lemma ex_two_connections: "reachable (init_pool 1) (turn_away (start_worker (init_pool 1)))"
proof -
  have "reachable (init_pool 1) (start_worker (init_pool 1))"
    by (rule reachable.step [OF reachable.start pool_step.accept_slot]) (simp add: init_pool_def)
  then show ?thesis by (rule reachable.step [OF _ pool_step.accept_full]) (simp add: init_pool_def)
qed

theorem pool_safe_witness:
  "\<exists>p. reachable (init_pool 1) p \<and> accepted p = 2 \<and> closedConns p = [1] \<and> card (dom (workers p)) \<le> 1"
proof -
  have "card (dom (workers (turn_away (start_worker (init_pool 1))))) \<le> 1"
    using pool_safe [OF ex_two_connections] by blast
  then show ?thesis
    using ex_two_connections by (intro exI [of _ "turn_away (start_worker (init_pool 1))"]) (simp add: init_pool_def)
qed

lemma start_server_state:
  assumes "start_server C H listen w = (Inr (km, p), w')"
  obtains n priv where "Atoi (host_env H ''ENCLAVE_MAX_WORKERS'') = Inr n" "1 \<le> n" "p = init_pool (nat n)"
    "km = \<lparr>privateKey = Some priv, kmPublicKey = Some (rsa_Public priv)\<rparr>" "listen = Inr ()"
proof -
  obtain n where n: "getMaxWorkers (host_env H) = Inr n" "p = init_pool (nat n)" "listen = Inr ()"
    and k: "\<exists>priv. km = \<lparr>privateKey = Some priv, kmPublicKey = Some (rsa_Public priv)\<rparr>"
    using assms by (auto simp: start_server_def result_simps NewKeyManager_def init_pool_def)
  have "Atoi (host_env H ''ENCLAVE_MAX_WORKERS'') = Inr n \<and> 1 \<le> n"
    using n(1) by (auto simp: getMaxWorkers_def getRequiredEnvInt_def defaultMaxWorkersEnv_def result_simps Let_def
      split: if_splits sum.splits)
  then show thesis using n k that by blast
qed

text \<open>
  C36: a server that starts has the number of workers that its environment gives in decimal, at least one,
  so its first connection finds a slot; and it holds a private key with its public half.
\<close>

theorem start_server_ready:
  assumes "start_server C H listen w = (Inr (km, p), w')"
  shows "\<exists>n priv. Atoi (host_env H ''ENCLAVE_MAX_WORKERS'') = Inr n \<and> 1 \<le> n \<and> p = init_pool (nat n)
    \<and> slots p < capacity p \<and> km = \<lparr>privateKey = Some priv, kmPublicKey = Some (rsa_Public priv)\<rparr>
    \<and> listen = Inr ()"
  using assms by (rule start_server_state) (auto simp: init_pool_def)

definition ex_host :: host where
  "ex_host = \<lparr>NSM_handle = Inr ex_attester, host_files = (\<lambda>_. Inl (LibError ''no file'')),
              host_sleep = (\<lambda>_ fs. fs), host_CPUs = 2, host_env = (\<lambda>_. ''4'')\<rparr>"

lemma ex_start_server:
  obtains km p w' where "start_server ex_crypto ex_host (Inr ()) ex_world = (Inr (km, p), w')"
proof -
  have a: "Atoi ''4'' = Inr 4" by code_simp
  have m: "getMaxWorkers (host_env ex_host) = Inr 4"
    by (simp add: getMaxWorkers_def getRequiredEnvInt_def ex_host_def a del: Atoi.simps)
  show thesis using that
    by (simp add: start_server_def bind_io_def wrap_io_def lift_io_def NewKeyManager_def generateRSAKeypair_def
      rsa_GenerateKey_def ex_world_def ex_crypto_def m)
qed

theorem start_server_ready_witness:
  "\<exists>km p w'. start_server ex_crypto ex_host (Inr ()) ex_world = (Inr (km, p), w') \<and> slots p < capacity p"
proof (rule ex_start_server)
  fix km p w'
  assume s: "start_server ex_crypto ex_host (Inr ()) ex_world = (Inr (km, p), w')"
  then show ?thesis using start_server_ready [OF s] by blast
qed

lemma serve_calls:
  "\<exists>n t2 s. fst (serve L H c km w) = take (Suc n)
     [SetReadDeadline (time_ns (wall (fst (time_Now w))) + readDeadline), ReadAll, SetWriteDeadline t2, Write s]"
proof -
  have e: "ev = take 1 [a, b, t, x] \<or> ev = take 2 [a, b, t, x] \<or> ev = take 3 [a, b, t, x] \<or> ev = take 4 [a, b, t, x]
      \<longleftrightarrow> ev \<in> {[a], [a, b], [a, b, t], [a, b, t, x]}" for ev and a b t x :: conn_event
    by (simp add: numeral_eq_Suc)
  have "\<exists>t2 s. fst (serve L H c km w) \<in>
     (let a = SetReadDeadline (time_ns (wall (fst (time_Now w))) + readDeadline); t = SetWriteDeadline t2; x = Write s
      in {[a], [a, ReadAll], [a, ReadAll, t], [a, ReadAll, t, x]})"
    by (auto simp: serve_def Let_def split: prod.splits if_splits sum.splits option.splits)
  then obtain t2 s i where "fst (serve L H c km w) = take i
     [SetReadDeadline (time_ns (wall (fst (time_Now w))) + readDeadline), ReadAll, SetWriteDeadline t2, Write s]"
    and "i \<in> {1, 2, 3, 4}"
    unfolding Let_def e [symmetric] by blast
  then show ?thesis by (intro exI [of _ "i - 1"] exI [of _ t2] exI [of _ s]) auto
qed

text \<open>
  C14: whatever a peer sends and whichever call on the connection fails (a panic in a handler included),
  the calls made on the connection are a non-empty initial part of setting the read deadline
  (30 seconds from the clock), reading, setting the write deadline and writing one message,
  followed by closing it: it is closed exactly once and last, and nothing is written before both
  deadlines have been set.
\<close>

theorem handleConnection_closes:
  "\<exists>n t2 s w'. handleConnection L H c km w
     = (take (Suc n) [SetReadDeadline (time_ns (wall (fst (time_Now w))) + readDeadline), ReadAll,
                      SetWriteDeadline t2, Write s] @ [Close], w')"
proof -
  obtain ev w' where s: "serve L H c km w = (ev, w')" by fastforce
  then have "\<exists>n t2 s. ev = take (Suc n)
      [SetReadDeadline (time_ns (wall (fst (time_Now w))) + readDeadline), ReadAll, SetWriteDeadline t2, Write s]"
    using serve_calls [of L H c km w] by simp
  then show ?thesis using s by (auto simp: handleConnection_def)
qed

end
