(* ===== verification/Server_Conversation.thy ===== *)
theory Server_Conversation
  imports Server_Pool
begin

section \<open>A request and its answer on the wire\<close>

text \<open>
  The server as its peer sees it: the bytes of an arbitration request go in, and the bytes of
  a response that reads back to the handler's answer come out.
\<close>

lemma dec_members_skip:
  "simple_name k \<Longrightarrow> find_field fs k = None \<Longrightarrow> dec_members fs ((k, v) # kvs) x = dec_members fs kvs x"
  by (simp add: dec_members.simps(2) json_unquote_simple)

lemma base_type:
  "ValidString (reqType r) \<Longrightarrow> dec_base (enc_Request T r) [] = Inr (reqType r)"
proof -
  assume v: "ValidString (reqType r)"
  let ?fs = "[(''type'', dec_field (\<lambda>t. t) (\<lambda>v _. v) dec_string)]"
  have n: "fold_name ''type'' \<noteq> fold_name ''request_id''" "fold_name ''type'' \<noteq> fold_name ''bids''"
    "fold_name ''type'' \<noteq> fold_name ''timestamp''" by code_simp+
  then have f: "find_field ?fs ''request_id'' = None" "find_field ?fs ''bids'' = None"
    "find_field ?fs ''timestamp'' = None"
    by (simp_all only: find_field_def) simp_all
  show ?thesis
    by (simp add: dec_base_def enc_Request_def dec_struct_def dec_members_field [of "''type''"]
      dec_members_skip f json_str.field_enc v)
qed

lemma request_base:
  assumes "tags_ok T" and "good_Request r"
  shows "json_Unmarshal dec_base (json_print (enc_Request T r)) [] = Inr (reqType r)"
proof -
  note s = request_struct [OF assms(1)]
  have "json_depth (enc_Request T r) \<le> max_depth"
    using json_struct.enc_depth0 [OF s assms(2)] by (simp add: max_depth_def)
  then show ?thesis
    using json_parse_print [OF json_struct.enc_wf0 [OF s assms(2)]] base_type [of r T] assms(2)
    by (simp add: json_Unmarshal_def good_Request_def)
qed

lemma dec_nat_valid: "ValidString (''arbitrated '' @ dec_nat n @ '' bids'')"
  by (rule ValidString_ascii) (use dec_digits_set [of "int n"] in \<open>auto simp: dec_nat_def list_all_iff\<close>)

text \<open>The standard base64 encoding of an envelope is valid UTF-8 (it is ASCII).\<close>

definition cose_ascii :: "cose_pkg \<Rightarrow> bool" where
  "cose_ascii K \<longleftrightarrow> (\<forall>b. ValidString (EncodeBase64 K b))"

lemma response_good:
  assumes "uuid_ok (lib_uuid L)" "cose_ascii (lib_cose L)" "list_all good_WireBid (reqBids req)"
    and h: "HandleArbitrationRequest L attester km req w = (Some r, w')" "respSuccess r"
  shows "good_Response r"
proof (rule handler_success [OF h])
  fix k resp cose
  assume rk: "request_ranking L k req resp" and c: "respAttestation r = EncodeBase64 (lib_cose L) cose"
    and ex: "respExcludedBids r = map malformed (filter (\<lambda>wb. \<not> parses (lib_uuid L) wb) (reqBids req))"
    and rb: "respBids r = map (resolved_bid_of (lib_uuid L)) (arBids resp)"
    and t: "respType r = ''arbitration_response''"
    and m: "respMessage r = ''arbitrated '' @ dec_nat (length (filter (parses (lib_uuid L)) (reqBids req))) @ '' bids''"
  have "good_ResolvedBid (resolved_bid_of (lib_uuid L) ab)" if ab: "ab \<in> set (arBids resp)" for ab
    using rk ab
  proof (rule request_ranking_entry)
    fix wb assume "wb \<in> set (reqBids req)"
      and e: "ab = resolve_bid (lib_print L) (lib_oor L) (lib_crypto L) \<lparr>arbPriv = PrivateKey k\<rparr> (core_bid (lib_uuid L) wb)"
    then have "ValidString (wbSource wb)" using assms(3) by (auto simp: list_all_iff good_WireBid_def)
    then show ?thesis
      using uuid_okD(2) [OF assms(1)]
      by (simp add: e resolved_bid_of_def good_ResolvedBid_def arbiter.resolve_bid core_bid_def)
  qed
  moreover have "ValidString ''arbitration_response''" "ValidString ExclusionReasonMalformedBidID"
    by code_simp+
  ultimately show ?thesis
    using assms(2,3) dec_nat_valid
    by (auto simp: good_Response_def ex rb c t m list_all_iff good_ExcludedBid_def malformed_def cose_ascii_def
      good_WireBid_def)
qed

text \<open>
  An arbitration request on the wire is answered on the wire: when the peer sends the JSON of a
  well-formed request and neither the connection, the attester nor the entropy fails, the server
  sets both deadlines, writes one line and closes, and that line reads back to the successful
  response of the arbitration handler.
\<close>

lemma arbitration_conversation:
  assumes "tags_ok (lib_tags L)" "uuid_ok (lib_uuid L)" "cose_ascii (lib_cose L)"
    and "good_Request req" "reqType req = ''arbitration_request''"
    and "conn_SetReadDeadline c = None" "conn_SetWriteDeadline c = None"
    and "conn_Read c = Inr (json_print (enc_Request (lib_tags L) req))"
    and "NSM_handle H = Inr att" "always_attests att" "sound_world w"
  shows "\<exists>r w1 w2 w' t1 t2. HandleArbitrationRequest L (Some att) (Some km) req w1 = (Some r, w2) \<and> respSuccess r
    \<and> handleConnection L H c (Some km) w
        = ([SetReadDeadline t1, ReadAll, SetWriteDeadline t2, Write (json_print (enc_Response r) @ [CHR 0x0A]), Close], w')
    \<and> json_Unmarshal dec_Response (json_print (enc_Response r)) zero_Response = Inr r"
proof -
  obtain now w1 where n: "time_Now w = (now, w1)" by fastforce
  then have "sound_world w1" using assms(11) by (auto simp: time_Now_def sound_world_def)
  then obtain r w2 where h: "HandleArbitrationRequest L (Some att) (Some km) req w1 = (Some r, w2)" "respSuccess r"
    using handler_ok [OF _ assms(10)] by blast
  have g: "good_Response r"
    using assms(4) by (intro response_good [OF assms(2,3) _ h]) (simp add: good_Request_def)
  have q: "json_Unmarshal (dec_Request (lib_tags L)) (json_print (enc_Request (lib_tags L) req)) zero_Request = Inr req"
    by (rule json_struct.Unmarshal_Marshal_zero [OF request_struct [OF assms(1)] assms(4)]) (simp add: max_depth_def)
  have "dispatch L H (reqType req) (json_print (enc_Request (lib_tags L) req)) (Some km) w1
      = (Some (ArbitrationReply r), w2)"
    using h by (simp add: dispatch_def assms(5,9) q getEnclaveAttester_def)
  then have "\<exists>t1 t2 w'. handleConnection L H c (Some km) w
        = ([SetReadDeadline t1, ReadAll, SetWriteDeadline t2, Write (json_print (enc_Response r) @ [CHR 0x0A]), Close], w')"
    using request_base [OF assms(1,4)]
    by (simp add: handleConnection_def serve_def n assms(6,7,8) Marshal_response_def Let_def split: prod.split)
  moreover have "json_Unmarshal dec_Response (json_print (enc_Response r)) zero_Response = Inr r"
    by (rule response.Unmarshal_Marshal_zero [OF g]) (simp add: max_depth_def)
  ultimately show ?thesis using h by blast
qed

definition ex_libs_hex :: libs where
  "ex_libs_hex = ex_libs\<lparr>lib_cose := ex_cose\<lparr>EncodeBase64 := hex_EncodeToString\<rparr>\<rparr>"

definition ex_conn :: conn where
  "ex_conn = \<lparr>conn_SetReadDeadline = None,
     conn_Read = Inr (json_print (enc_Request (lib_tags ex_libs_hex) ex_req)),
     conn_SetWriteDeadline = None, conn_Write = None, conn_Close = None\<rparr>"

end
