(* ===== verification/Go_JsonLine.thy ===== *)
theory Go_JsonLine
  imports Go_JsonStruct
begin

section \<open>Go's encoding/json: printed values are one line\<close>

text \<open>
  The server frames its answers by a newline: this theory shows that no printed value holds
  one, or any other control character.
\<close>

definition one_line :: "string \<Rightarrow> bool" where
  "one_line s \<longleftrightarrow> list_all (\<lambda>c. \<not> is_control c) s"

lemma one_line_simps [simp]:
  "one_line []" "one_line (c # s) \<longleftrightarrow> \<not> is_control c \<and> one_line s" "one_line (s @ t) \<longleftrightarrow> one_line s \<and> one_line t"
  by (simp_all add: one_line_def)

definition json_chars :: string where
  "json_chars = [CHR 0x22, CHR 0x5C] @ ''/bfnrt0123456789abcdefABCDEFu.+-truefalsenull{}[]:,eE''"

lemma not_control: "c \<in> set json_chars \<Longrightarrow> \<not> is_control c"
proof -
  have "list_all (\<lambda>c. \<not> is_control c) json_chars" by code_simp
  then show "c \<in> set json_chars \<Longrightarrow> \<not> is_control c" by (simp add: list_all_iff)
qed

lemma not_control_simps [simp]:
  "\<not> is_control (CHR 0x22)" "\<not> is_control (CHR 0x5C)" "\<not> is_control (CHR ''{'')" "\<not> is_control (CHR ''}'')"
  "\<not> is_control (CHR ''['')" "\<not> is_control (CHR '']'')" "\<not> is_control (CHR '':'')" "\<not> is_control (CHR '','')"
  "\<not> is_control (CHR ''n'')" "\<not> is_control (CHR ''u'')" "\<not> is_control (CHR ''l'')" "\<not> is_control (CHR ''t'')"
  "\<not> is_control (CHR ''r'')" "\<not> is_control (CHR ''e'')" "\<not> is_control (CHR ''f'')" "\<not> is_control (CHR ''a'')"
  "\<not> is_control (CHR ''s'')" "\<not> is_control (CHR ''.'')" "\<not> is_control (CHR ''0'')" "\<not> is_control (CHR ''E'')"
  "\<not> is_control (CHR ''+'')" "\<not> is_control (CHR ''-'')"
  by (rule not_control, code_simp)+

lemma json_classes:
  "is_escape c \<Longrightarrow> \<not> is_control c" "is_hex c \<Longrightarrow> \<not> is_control c" "is_digit c \<Longrightarrow> \<not> is_control c"
proof -
  have "set ([CHR 0x22, CHR 0x5C] @ ''/bfnrt'' @ ''0123456789abcdefABCDEF'' @ ''0123456789'') \<subseteq> set json_chars"
    by code_simp
  then show "is_escape c \<Longrightarrow> \<not> is_control c" "is_hex c \<Longrightarrow> \<not> is_control c" "is_digit c \<Longrightarrow> \<not> is_control c"
    using not_control unfolding is_escape_def is_hex_def is_digit_def set_append by auto
qed

lemma lex_str_one_line: "lex_str s = Some (b, r) \<Longrightarrow> one_line b"
proof (induction s arbitrary: b r rule: lex_str.induct)
  case (2 c cs)
  show ?case
  proof (cases "c = CHR 0x5C")
    case esc: True
    then obtain e cs1 where e: "cs = e # cs1" using "2.prems" by (cases cs) simp_all
    show ?thesis
    proof (cases "is_escape e")
      case True
      then have "\<not> is_control e" by (rule json_classes)
      then show ?thesis using "2.prems" "2.IH"(1) [OF _ esc e True] esc e True by auto
    next
      case False
      then obtain h1 h2 h3 h4 cs2 where h: "e = CHR ''u''" "cs1 = h1 # h2 # h3 # h4 # cs2"
        "list_all is_hex [h1, h2, h3, h4]"
        using "2.prems" esc e by (auto split: if_splits list.splits)
      then have "one_line [h1, h2, h3, h4]" using json_classes by auto
      then show ?thesis using "2.prems" "2.IH"(2) esc e False h by auto
    qed
  next
    case False
    then show ?thesis using 2 by (auto split: if_splits)
  qed
qed simp

lemma lex_num_one_line: "lex_num s = Some (n, r) \<Longrightarrow> one_line n"
proof -
  have d: "one_line (takeWhile is_digit s)" for s
    using set_takeWhileD [of _ is_digit s] json_classes(3) by (fastforce simp: one_line_def list_all_iff)
  have i: "lex_int s = Some (b, r) \<Longrightarrow> one_line b" for s b r
    using d json_classes(3) by (auto simp: lex_int_def split: list.splits if_splits)
  have g: "lex_digits p s = Some (b, r) \<Longrightarrow> one_line p \<Longrightarrow> one_line b" for p s b r
    using d by (auto simp: lex_digits_def split: if_splits)
  have f: "lex_frac s = Some (b, r) \<Longrightarrow> one_line b" for s b r
    using g by (auto simp: lex_frac_def split: list.splits if_splits)
  have e: "lex_exp s = Some (b, r) \<Longrightarrow> one_line b" for s b r
    using g by (auto simp: lex_exp_def split: list.splits if_splits)
  have u: "lex_unsigned s = Some (b, r) \<Longrightarrow> one_line b" for s b r
    using i f e by (auto simp: lex_unsigned_def split: option.splits prod.splits)
  show "lex_num s = Some (n, r) \<Longrightarrow> one_line n"
    using u by (auto simp: lex_num_def split: list.splits if_splits)
qed

lemma one_line_comma:
  "\<forall>ts \<in> set tss. one_line (concat (map tok_text ts)) \<Longrightarrow> one_line (concat (map tok_text (comma_sep tss)))"
  by (induction tss rule: comma_sep.induct) simp_all

lemma one_line_toks: "json_wf j \<Longrightarrow> one_line (concat (map tok_text (json_toks j)))"
proof (induction j rule: json_toks.induct)
  case (3 n)
  then show ?case using lex_num_one_line by (auto simp: wf_num_lit_def)
next
  case (4 s)
  then show ?case using lex_str_one_line by (auto simp: wf_str_lit_def)
next
  case (5 vs)
  then show ?case
    using one_line_comma [of "map json_toks vs"] by (auto simp: list_all_iff)
next
  case (6 kvs)
  have "one_line (concat (map tok_text (TStr k # TColon # json_toks v)))" if "(k, v) \<in> set kvs" for k v
    using that 6 lex_str_one_line [of "k @ [CHR 0x22]"] by (auto simp: list_all_iff wf_str_lit_def)
  then have "one_line (concat (map tok_text (comma_sep (map (\<lambda>(k, v). TStr k # TColon # json_toks v) kvs))))"
    by (intro one_line_comma) auto
  then show ?case by simp
qed simp_all

lemma one_line_print: "json_wf j \<Longrightarrow> one_line (json_print j)"
  unfolding json_print_def by (rule one_line_toks)

lemma one_line_newline: "one_line s \<Longrightarrow> CHR 0x0A \<notin> set s"
  by (auto simp: one_line_def list_all_iff is_control_def)

end
