(* ===== verification/Server_Answers.thy ===== *)
theory Server_Answers
  imports Server_Conversation Go_JsonLine
begin

section \<open>Every request that can be read is answered by one line\<close>

text \<open>
  What the server writes for a request, by its type: the response of the handler for that type,
  or the error that kept the handler from running, as one line of JSON.  The requests that are
  closed without an answer are those whose envelope does not decode, and health checks on a
  host whose memory total wraps to zero bytes.
\<close>

text \<open>
  The response to a request of type \<open>typ\<close> with the given body, when the server handles it in
  the world \<open>w\<close>: each kind of response belongs to one type of request and comes out of its
  handler; an error says which step failed, or that there is no such type.
\<close>

definition answers :: "libs \<Rightarrow> host \<Rightarrow> KeyManager \<Rightarrow> string \<Rightarrow> bytes \<Rightarrow> world \<Rightarrow> response \<Rightarrow> bool" where
  "answers L H km typ body w resp \<longleftrightarrow>
     (case resp of
        Pong msg t sys \<Rightarrow>
          typ = ''ping'' \<and> t = word_of_int (t_sec (wall (fst (time_Now w)))) \<and> sys = sysInfoOrNil L H
      | KeyReply k \<Rightarrow>
          typ = ''key_request''
          \<and> (\<exists>att. NSM_handle H = Inr att \<and> fst (HandleKeyRequest L (Some att) (Some km) w) = Some (Inr k))
      | ArbitrationReply r \<Rightarrow>
          typ = ''arbitration_request''
          \<and> (\<exists>att req. NSM_handle H = Inr att
              \<and> json_Unmarshal (dec_Request (lib_tags L)) body zero_Request = Inr req
              \<and> fst (HandleArbitrationRequest L (Some att) (Some km) req w) = Some r)
      | ErrorMap m \<Rightarrow>
          typ \<in> {''key_request'', ''arbitration_request''}
          \<and> (\<exists>e. NSM_handle H = Inl e
              \<and> m = ''failed to initialize TEE attester: NSM unavailable: '' @ error_string e)
          \<or> typ = ''key_request''
          \<and> (\<exists>att e. NSM_handle H = Inr att
              \<and> fst (HandleKeyRequest L (Some att) (Some km) w) = Some (Inl e) \<and> m = error_string e)
          \<or> typ = ''arbitration_request''
          \<and> (\<exists>e. json_Unmarshal (dec_Request (lib_tags L)) body zero_Request = Inl e
              \<and> m = ''decode arbitration request: '' @ error_string e)
          \<or> typ \<notin> {''ping'', ''key_request'', ''arbitration_request''}
          \<and> m = ''unknown request type: '' @ typ)"

definition mem_wraps :: "libs \<Rightarrow> host \<Rightarrow> bool" where
  "mem_wraps L H \<longleftrightarrow> (case sysInfoOrNil L H of None \<Rightarrow> False | Some s \<Rightarrow> MemTotalBytes s = 0)"

subsection \<open>Every response is printed as JSON\<close>

lemma wf_uint64 [simp]: "json_wf (enc_uint64 v)"
proof -
  obtain c cs where d: "dec_digits (uint v) = c # cs"
    using dec_digits_nonempty [of "uint v"] by (cases "dec_digits (uint v)") auto
  have "c \<noteq> CHR ''-''" using dec_digits_set [of "uint v"] unfolding d by auto
  then show ?thesis
    using lex_unsigned_digits [of "uint v"] by (simp add: enc_uint64_def wf_num_lit_def lex_num_def d)
qed

lemma wf_response_parts [simp]:
  "json_wf (enc_ExcludedBid e)" "json_wf (enc_ResolvedBid b)"
  by (simp_all add: enc_ExcludedBid_def enc_ResolvedBid_def codec_simps)

lemma wf_enc_Response: "json_wf (enc_Response r)"
  by (simp add: enc_Response_def codec_simps list_all_iff)

lemma map_names [simp]:
  "simple_name ''system''" "simple_name ''mem_total_bytes''" "simple_name ''mem_used_bytes''"
  "simple_name ''mem_usage_percent''" "simple_name ''cpu_usage_percent''" "simple_name ''num_cpus''"
  by code_simp+

lemma Marshal_SystemInfo_ok:
  assumes "wf_f64 (MemUsagePercent s) \<and> finite_f64 (MemUsagePercent s)"
    and "wf_f64 (CPUUsagePercent s) \<and> finite_f64 (CPUUsagePercent s)"
  shows "\<exists>j. Marshal_SystemInfo s = Inr j \<and> json_wf j"
  using fmt_json_float_reads_back [of "MemUsagePercent s"] fmt_json_float_reads_back [of "CPUUsagePercent s"] assms
  by (auto simp: Marshal_SystemInfo_def wf_simple)

lemma Marshal_SystemInfo_infinite:
  "\<not> finite_f64 (MemUsagePercent s) \<Longrightarrow> \<not> is_ok (Marshal_SystemInfo s)"
  by (cases "MemUsagePercent s") (simp_all add: Marshal_SystemInfo_def)

lemma sysInfo_finite:
  assumes "sysInfoOrNil L H = Some s"
  shows "MemTotalBytes s \<noteq> 0 \<Longrightarrow> \<exists>j. Marshal_SystemInfo s = Inr j \<and> json_wf j"
    and "MemTotalBytes s = 0 \<Longrightarrow> \<not> is_ok (Marshal_SystemInfo s)"
proof -
  have s: "GetSystemInfo (lib_print L) (host_sleep H) (host_CPUs H) (host_files H) = Inr s"
    using assms by (auto simp: sysInfoOrNil_def split: sum.splits)
  note f = GetSystemInfo_finite [OF s]
  show "MemTotalBytes s \<noteq> 0 \<Longrightarrow> \<exists>j. Marshal_SystemInfo s = Inr j \<and> json_wf j"
    using f(1,2) by (intro Marshal_SystemInfo_ok) simp_all
  show "MemTotalBytes s = 0 \<Longrightarrow> \<not> is_ok (Marshal_SystemInfo s)"
    using f(3) by (rule Marshal_SystemInfo_infinite)
qed

lemma printed: "json_wf j \<Longrightarrow> \<exists>j'. json_print j = json_print j' \<and> json_wf j'"
  by blast

lemma Marshal_pong:
  assumes "sysInfoOrNil L H = sys"
  shows "if mem_wraps L H then \<not> is_ok (Marshal_response T (Pong msg t sys))
    else \<exists>j. Marshal_response T (Pong msg t sys) = Inr (json_print j) \<and> json_wf j"
proof (cases sys)
  case None
  then show ?thesis using assms by (simp add: mem_wraps_def Marshal_response_def printed wf_simple)
next
  case (Some s)
  show ?thesis
  proof (cases "MemTotalBytes s = 0")
    case True
    then obtain e where "Marshal_SystemInfo s = Inl e"
      using sysInfo_finite(2) [of L H s] assms Some by (cases "Marshal_SystemInfo s") auto
    then show ?thesis using assms Some True by (simp add: mem_wraps_def Marshal_response_def)
  next
    case False
    then obtain j where "Marshal_SystemInfo s = Inr j" "json_wf j"
      using sysInfo_finite(1) [of L H s] assms Some by auto
    then show ?thesis using assms Some False
      by (simp add: mem_wraps_def Marshal_response_def printed wf_simple)
  qed
qed

lemma Marshal_other:
  assumes "\<And>k. json_wf (enc_KeyResponse T k)" and "\<And>m t s. resp \<noteq> Pong m t s"
  shows "\<exists>j. Marshal_response T resp = Inr (json_print j) \<and> json_wf j"
proof (cases resp)
  case (ErrorMap m)
  show ?thesis
    by (rule exI [of _ "JObj [(''message'', enc_string m), (''type'', enc_string ''error'')]"])
      (simp add: ErrorMap Marshal_response_def wf_simple)
next
  case (KeyReply k)
  then show ?thesis using assms(1) by (auto simp: Marshal_response_def)
next
  case (ArbitrationReply r)
  then show ?thesis using wf_enc_Response by (auto simp: Marshal_response_def)
qed (use assms(2) in simp)

subsection \<open>Every request is answered\<close>

lemma NSM_error: "getEnclaveAttester H = Inl e \<Longrightarrow>
    \<exists>e'. NSM_handle H = Inl e' \<and> error_string e = ''NSM unavailable: '' @ error_string e'"
  by (auto simp: getEnclaveAttester_def result_simps)

lemma NSM_found: "getEnclaveAttester H = Inr att \<longleftrightarrow> NSM_handle H = Inr att"
  by (simp add: getEnclaveAttester_def result_simps)

lemma dispatch_key:
  assumes "kmPublicKey km = Some pub" and "sound_world w"
  shows "\<exists>resp w'. dispatch L H ''key_request'' body (Some km) w = (Some resp, w')
    \<and> answers L H km ''key_request'' body w resp"
proof (cases "getEnclaveAttester H")
  case (Inl e)
  then show ?thesis using NSM_error [OF Inl] by (auto simp: dispatch_def answers_def errorResponse_def)
next
  case (Inr att)
  have "fst (HandleKeyRequest L (Some att) (Some km) w) \<noteq> None"
    using assms unfolding HandleKeyRequest_panic_iff by (auto simp: sound_world_def is_ok_iff)
  then obtain r w' where r: "HandleKeyRequest L (Some att) (Some km) w = (Some r, w')"
    by (cases "HandleKeyRequest L (Some att) (Some km) w") auto
  then show ?thesis using Inr NSM_found [of H att]
    by (cases r) (simp_all add: dispatch_def answers_def errorResponse_def)
qed

lemma dispatch_arbitration:
  "\<exists>resp w'. dispatch L H ''arbitration_request'' body (Some km) w = (Some resp, w')
     \<and> answers L H km ''arbitration_request'' body w resp"
proof (cases "json_Unmarshal (dec_Request (lib_tags L)) body zero_Request")
  case (Inl e)
  then show ?thesis by (simp add: dispatch_def answers_def errorResponse_def)
next
  case req: (Inr req)
  show ?thesis
  proof (cases "getEnclaveAttester H")
    case (Inl e)
    then show ?thesis using NSM_error [OF Inl] req by (auto simp: dispatch_def answers_def errorResponse_def)
  next
    case (Inr att)
    obtain r w' where "HandleArbitrationRequest L (Some att) (Some km) req w = (Some r, w')"
      using handler_no_panic by blast
    then show ?thesis using Inr NSM_found [of H att] req by (simp add: dispatch_def answers_def)
  qed
qed

lemma dispatch_ping:
  "\<exists>m w'. dispatch L H ''ping'' body km w
     = (Some (Pong m (word_of_int (t_sec (wall (fst (time_Now w))))) (sysInfoOrNil L H)), w')"
  by (simp add: dispatch_def Let_def split: prod.split)

lemma dispatch_answers:
  assumes "kmPublicKey km = Some pub" and "sound_world w"
  obtains resp w' where "dispatch L H typ body (Some km) w = (Some resp, w')" "answers L H km typ body w resp"
proof -
  consider "typ = ''ping''" | "typ = ''key_request''" | "typ = ''arbitration_request''"
    | "typ \<notin> {''ping'', ''key_request'', ''arbitration_request''}" by blast
  then show thesis
  proof cases
    case 1
    then show thesis using dispatch_ping [of L H body "Some km" w] that by (auto simp: answers_def)
  next
    case 2
    then show thesis using dispatch_key [OF assms] that by blast
  next
    case 3
    then show thesis using dispatch_arbitration that by blast
  next
    case 4
    then show thesis using that by (simp add: dispatch_def errorResponse_def answers_def)
  qed
qed

lemma handle_unreadable:
  assumes "conn_SetReadDeadline c = None" "conn_Read c = Inr body" "json_Unmarshal dec_base body [] = Inl e"
  shows "\<exists>w'. handleConnection L H c km w
    = ([SetReadDeadline (time_ns (wall (fst (time_Now w))) + readDeadline), ReadAll, Close], w')"
  using assms by (cases "time_Now w") (simp add: handleConnection_def serve_def)

lemma handle_dispatched:
  assumes "conn_SetReadDeadline c = None" "conn_SetWriteDeadline c = None"
    and "conn_Read c = Inr body" "json_Unmarshal dec_base body [] = Inr typ"
    and "dispatch L H typ body km (snd (time_Now w)) = (Some resp, w2)"
  shows "\<exists>t2 w'. handleConnection L H c km w
      = ([SetReadDeadline (time_ns (wall (fst (time_Now w))) + readDeadline), ReadAll, SetWriteDeadline t2]
          @ (case Marshal_response (lib_tags L) resp of Inl _ \<Rightarrow> [] | Inr text \<Rightarrow> [Write (text @ [CHR 0x0A])])
          @ [Close], w')"
  using assms
  by (cases "time_Now w"; cases "time_Now w2")
    (simp add: handleConnection_def serve_def Let_def split: sum.split)

lemma Marshal_answer:
  assumes "\<And>k. json_wf (enc_KeyResponse (lib_tags L) k)" and "answers L H km typ body w resp"
  shows "if typ = ''ping'' \<and> mem_wraps L H then \<not> is_ok (Marshal_response (lib_tags L) resp)
    else \<exists>text. Marshal_response (lib_tags L) resp = Inr text \<and> CHR 0x0A \<notin> set text"
proof (cases resp)
  case (Pong m t sys)
  then have "typ = ''ping''" "sysInfoOrNil L H = sys" using assms(2) by (simp_all add: answers_def)
  then show ?thesis
    using Marshal_pong [of L H sys "lib_tags L" m t] one_line_newline [OF one_line_print] by (auto simp: Pong)
next
  case (ErrorMap m)
  then have "typ \<noteq> ''ping''" using assms(2) by (auto simp: answers_def)
  then show ?thesis
    using Marshal_other [OF assms(1), of resp] one_line_newline [OF one_line_print] by (auto simp: ErrorMap)
next
  case (KeyReply k)
  then have "typ \<noteq> ''ping''" using assms(2) by (auto simp: answers_def)
  then show ?thesis
    using Marshal_other [OF assms(1), of resp] one_line_newline [OF one_line_print] by (auto simp: KeyReply)
next
  case (ArbitrationReply r)
  then have "typ \<noteq> ''ping''" using assms(2) by (auto simp: answers_def)
  then show ?thesis
    using Marshal_other [OF assms(1), of resp] one_line_newline [OF one_line_print] by (auto simp: ArbitrationReply)
qed

text \<open>
  C15: what the peer gets for the bytes it sends, when the connection, the entropy and the clock do
  not fail, the server holds its public key and a key response encodes to JSON.  Bytes that
  do not decode as an envelope (not JSON, neither an object nor null, or with a type that is
  neither a string nor null) are closed unanswered.  Any other request gets one line, the JSON
  of the response that its type calls for: a pong with the host's figures, the key response or
  the arbitration response of the handler, or an error that says what kept the handler from
  answering (or that the type is unknown); then the connection is closed.  The exception is a
  health check on a host whose memory total wraps to zero bytes, which is closed unanswered.
\<close>

theorem request_answered:
  assumes "\<And>k. json_wf (enc_KeyResponse (lib_tags L) k)"
    and "kmPublicKey km = Some pub" and "sound_world w"
    and "conn_SetReadDeadline c = None" "conn_SetWriteDeadline c = None" and "conn_Read c = Inr body"
  shows "\<exists>t1 t2 w'. case json_Unmarshal dec_base body [] of
      Inl e \<Rightarrow> handleConnection L H c (Some km) w = ([SetReadDeadline t1, ReadAll, Close], w')
    | Inr typ \<Rightarrow>
        if typ = ''ping'' \<and> mem_wraps L H
        then handleConnection L H c (Some km) w = ([SetReadDeadline t1, ReadAll, SetWriteDeadline t2, Close], w')
        else \<exists>resp text. answers L H km typ body (snd (time_Now w)) resp
          \<and> Marshal_response (lib_tags L) resp = Inr text \<and> CHR 0x0A \<notin> set text
          \<and> handleConnection L H c (Some km) w
              = ([SetReadDeadline t1, ReadAll, SetWriteDeadline t2, Write (text @ [CHR 0x0A]), Close], w')"
proof (cases "json_Unmarshal dec_base body []")
  case (Inl e)
  obtain w' where "handleConnection L H c (Some km) w
      = ([SetReadDeadline (time_ns (wall (fst (time_Now w))) + readDeadline), ReadAll, Close], w')"
    using handle_unreadable [OF assms(4,6) Inl] by blast
  then show ?thesis by (simp add: Inl)
next
  case (Inr ty)
  have s1: "sound_world (snd (time_Now w))" using assms(3) by (simp add: time_Now_def sound_world_def)
  obtain resp w2 where d: "dispatch L H ty body (Some km) (snd (time_Now w)) = (Some resp, w2)"
    and a: "answers L H km ty body (snd (time_Now w)) resp"
    using dispatch_answers [OF assms(2) s1] by blast
  note m = Marshal_answer [OF assms(1) a] and h = handle_dispatched [OF assms(4-6) Inr d]
  show ?thesis
  proof (cases "ty = ''ping'' \<and> mem_wraps L H")
    case True
    then show ?thesis using m h by (cases "Marshal_response (lib_tags L) resp") (auto simp: Inr)
  next
    case False
    then obtain s where "Marshal_response (lib_tags L) resp = Inr s" "CHR 0x0A \<notin> set s"
      using m by auto
    then show ?thesis using False a h by (simp add: Inr) blast
  qed
qed

definition hello_conn :: conn where
  "hello_conn = \<lparr>conn_SetReadDeadline = None, conn_Read = Inr (json_print (JObj [(''type'', JStr ''hello'')])),
     conn_SetWriteDeadline = None, conn_Write = None, conn_Close = None\<rparr>"

theorem request_answered_witness:
  "\<exists>t1 t2. fst (handleConnection ex_libs ex_host hello_conn (Some ex_km) ex_world)
     = [SetReadDeadline t1, ReadAll, SetWriteDeadline t2,
        Write (''{\"message\":\"unknown request type: hello\",\"type\":\"error\"}'' @ [CHR 0x0A]), Close]"
proof -
  have k: "json_wf (enc_KeyResponse (lib_tags ex_libs) k)" for k
    by (simp add: ex_libs_def ex_tags_def codec_simps)
  have c: "conn_SetReadDeadline hello_conn = None" "conn_SetWriteDeadline hello_conn = None"
    "conn_Read hello_conn = Inr (json_print (JObj [(''type'', JStr ''hello'')]))"
    by (simp_all add: hello_conn_def)
  have t: "json_Unmarshal dec_base (json_print (JObj [(''type'', JStr ''hello'')])) [] = Inr ''hello''"
    by code_simp
  have p: "kmPublicKey ex_km = Some (rsa_Public ex_priv)" by (simp add: ex_km_def)
  have e: "answers L H km ''hello'' body w resp \<Longrightarrow> resp = ErrorMap ''unknown request type: hello''"
    for L H km body w resp by (auto simp: answers_def split: response.splits)
  have m: "Marshal_response T (ErrorMap ''unknown request type: hello'')
      = Inr ''{\"message\":\"unknown request type: hello\",\"type\":\"error\"}''" for T by code_simp
  show ?thesis
    using request_answered [OF k p ex_sound_world c, of ex_host] e m by (fastforce simp: t)
qed

end
