(* ===== verification/Server_System.thy ===== *)
theory Server_System
  imports Server_Answers
begin

section \<open>The whole server: the pool with what its workers do\<close>

text \<open>
  The accept loop and its workers together with the calls made on every connection.  The
  connection that arrives as number c is \<open>cs c\<close>.  The handlers run concurrently, so each
  sees some part of the host's entropy and clock: a world that the environment W allows.
  The pool is the abstraction of this server that forgets the calls.
\<close>

record server =
  sv_pool :: pool
  sv_calls :: "nat \<Rightarrow> conn_event list"

definition init_server :: "pool \<Rightarrow> server" where
  "init_server p = \<lparr>sv_pool = p, sv_calls = (\<lambda>_. [])\<rparr>"

inductive server_step ::
  "libs \<Rightarrow> host \<Rightarrow> KeyManager option \<Rightarrow> (nat \<Rightarrow> conn) \<Rightarrow> (world \<Rightarrow> bool) \<Rightarrow> server \<Rightarrow> server \<Rightarrow> bool"
  for L H km cs W where
  srv_accept_error: "server_step L H km cs W s s"
| srv_accept_slot: "slots (sv_pool s) < capacity (sv_pool s) \<Longrightarrow>
    server_step L H km cs W s (s\<lparr>sv_pool := start_worker (sv_pool s)\<rparr>)"
| srv_accept_full: "\<not> slots (sv_pool s) < capacity (sv_pool s) \<Longrightarrow>
    server_step L H km cs W s (s\<lparr>sv_pool := turn_away (sv_pool s),
                                 sv_calls := (sv_calls s)(accepted (sv_pool s) := [Close])\<rparr>)"
| srv_served: "workers (sv_pool s) c = Some Serving \<Longrightarrow> W w \<Longrightarrow>
    handleConnection L H (cs c) km w = (ev, w') \<Longrightarrow>
    server_step L H km cs W s (s\<lparr>sv_pool := end_service c (sv_pool s), sv_calls := (sv_calls s)(c := ev)\<rparr>)"
| srv_released: "workers (sv_pool s) c = Some Releasing \<Longrightarrow>
    server_step L H km cs W s (s\<lparr>sv_pool := release_slot c (sv_pool s)\<rparr>)"

inductive server_run ::
  "libs \<Rightarrow> host \<Rightarrow> KeyManager option \<Rightarrow> (nat \<Rightarrow> conn) \<Rightarrow> (world \<Rightarrow> bool) \<Rightarrow> server \<Rightarrow> server \<Rightarrow> bool"
  for L H km cs W s0 where
  run_start: "server_run L H km cs W s0 s0"
| run_step: "server_run L H km cs W s0 s \<Longrightarrow> server_step L H km cs W s t \<Longrightarrow> server_run L H km cs W s0 t"

subsection \<open>The server refines the pool\<close>

lemma server_step_pool: "server_step L H km cs W s t \<Longrightarrow> pool_step (sv_pool s) (sv_pool t)"
  by (induction rule: server_step.induct)
    (auto intro: pool_step.intros worker_step.intros)

lemma server_run_pool: "server_run L H km cs W s0 s \<Longrightarrow> reachable (sv_pool s0) (sv_pool s)"
  by (induction rule: server_run.induct) (auto intro: reachable.intros server_step_pool)

lemma pool_step_server:
  assumes "W w" and "pool_step (sv_pool s) q"
  shows "\<exists>t. server_step L H km cs W s t \<and> sv_pool t = q"
  using assms(2)
proof (rule pool_stepE)
  assume "worker_step (sv_pool s) q"
  then show ?thesis
  proof (rule worker_stepE)
    fix c assume c: "q = end_service c (sv_pool s)" "workers (sv_pool s) c = Some Serving"
    obtain ev w' where "handleConnection L H (cs c) km w = (ev, w')" by fastforce
    from srv_served [where cs = cs and W = W, OF c(2) assms(1), of L H km ev w'] this c(1) show ?thesis by fastforce
  next
    fix c assume "q = release_slot c (sv_pool s)" "workers (sv_pool s) c = Some Releasing"
    then show ?thesis using srv_released by fastforce
  qed
qed (use srv_accept_error srv_accept_slot srv_accept_full in fastforce)+

subsection \<open>What was called on each connection\<close>

text \<open>
  A connection that is not closed has seen no call that is recorded; a closed one was served,
  or turned away in an earlier state of the run where every slot was in use.
\<close>

definition turned_away_in :: "libs \<Rightarrow> host \<Rightarrow> KeyManager option \<Rightarrow> (nat \<Rightarrow> conn) \<Rightarrow> (world \<Rightarrow> bool)
    \<Rightarrow> server \<Rightarrow> server \<Rightarrow> nat \<Rightarrow> bool" where
  "turned_away_in L H km cs W s0 s c \<longleftrightarrow>
     (\<exists>s'. server_run L H km cs W s0 s' \<and> server_run L H km cs W s' s
        \<and> accepted (sv_pool s') = c \<and> \<not> slots (sv_pool s') < capacity (sv_pool s'))"

definition closed_how :: "libs \<Rightarrow> host \<Rightarrow> KeyManager option \<Rightarrow> (nat \<Rightarrow> conn) \<Rightarrow> (world \<Rightarrow> bool)
    \<Rightarrow> server \<Rightarrow> server \<Rightarrow> nat \<Rightarrow> conn_event list \<Rightarrow> bool" where
  "closed_how L H km cs W s0 s c ev \<longleftrightarrow>
     (ev = [Close] \<and> turned_away_in L H km cs W s0 s c)
     \<or> (\<exists>w w'. W w \<and> handleConnection L H (cs c) km w = (ev, w'))"

definition calls_inv :: "libs \<Rightarrow> host \<Rightarrow> KeyManager option \<Rightarrow> (nat \<Rightarrow> conn) \<Rightarrow> (world \<Rightarrow> bool)
    \<Rightarrow> server \<Rightarrow> server \<Rightarrow> bool" where
  "calls_inv L H km cs W s0 s \<longleftrightarrow>
     (\<forall>c. if c \<in> set (closedConns (sv_pool s)) then closed_how L H km cs W s0 s c (sv_calls s c)
          else sv_calls s c = [])"

lemma closed_served: "W w \<Longrightarrow> handleConnection L H (cs c) km w = (ev, w') \<Longrightarrow> closed_how L H km cs W s0 s c ev"
  by (auto simp: closed_how_def)

lemma calls_inv_run:
  assumes "closedConns (sv_pool s0) = []" and "sv_calls s0 = (\<lambda>_. [])"
  shows "server_run L H km cs W s0 s \<Longrightarrow> calls_inv L H km cs W s0 s"
proof (induction rule: server_run.induct)
  case run_start
  then show ?case using assms by (simp add: calls_inv_def)
next
  case (run_step s t)
  have later: "closed_how L H km cs W s0 t c ev" if "closed_how L H km cs W s0 s c ev" for c ev
    using that server_run.run_step [OF _ run_step(2)] unfolding closed_how_def turned_away_in_def by blast
  have old: "if c \<in> set (closedConns (sv_pool s)) then closed_how L H km cs W s0 t c (sv_calls s c)
      else sv_calls s c = []" for c
    using run_step.IH later unfolding calls_inv_def by (auto split: if_splits)
  have keep: "closedConns (sv_pool t) = closedConns (sv_pool s) \<Longrightarrow> sv_calls t = sv_calls s \<Longrightarrow> ?case"
    using old by (simp add: calls_inv_def)
  from run_step(2) show ?case
  proof cases
    case srv_accept_full
    have "server_run L H km cs W s t" by (rule server_run.run_step [OF run_start run_step(2)])
    then have "closed_how L H km cs W s0 t (accepted (sv_pool s)) [Close]"
      unfolding closed_how_def turned_away_in_def using run_step(1) srv_accept_full(2) by blast
    moreover have "sv_pool t = turn_away (sv_pool s)" "sv_calls t = (sv_calls s)(accepted (sv_pool s) := [Close])"
      using srv_accept_full(1) by simp_all
    ultimately show ?thesis using old by (simp add: calls_inv_def)
  next
    case (srv_served c w ev w')
    have "closed_how L H km cs W s0 t c ev" by (rule closed_served [of W w L H cs c km ev w'], fact+)
    moreover have "sv_pool t = end_service c (sv_pool s)" "sv_calls t = (sv_calls s)(c := ev)"
      using srv_served(1) by simp_all
    ultimately show ?thesis using old by (simp add: calls_inv_def)
  qed ((rule keep; simp)+)
qed

lemma serve_no_close: "count_list (fst (serve L H c km w)) Close = 0"
proof -
  obtain n t1 t2 x where "fst (serve L H c km w) = take (Suc n) [SetReadDeadline t1, ReadAll, SetWriteDeadline t2, Write x]"
    using serve_calls by blast
  moreover have "Close \<notin> set (take (Suc n) [SetReadDeadline t1, ReadAll, SetWriteDeadline t2, Write x])"
    by (rule contra_subsetD [OF set_take_subset]) simp
  ultimately show ?thesis by simp
qed

lemma handle_one_close: "handleConnection L H c km w = (ev, w') \<Longrightarrow> count_list ev Close = 1"
  using serve_no_close [of L H c km w] by (auto simp: handleConnection_def split: prod.splits)

lemma handle_not_only_close: "handleConnection L H c km w \<noteq> ([Close], w')"
proof
  assume "handleConnection L H c km w = ([Close], w')"
  then have "fst (serve L H c km w) = []" by (auto simp: handleConnection_def split: prod.splits)
  moreover obtain n t1 t2 x where
    "fst (serve L H c km w) = take (Suc n) [SetReadDeadline t1, ReadAll, SetWriteDeadline t2, Write x]"
    using serve_calls by blast
  ultimately show False by simp
qed

lemma closed_how_one: "closed_how L H km cs W s0 s c ev \<Longrightarrow> count_list ev Close = 1"
  using handle_one_close by (auto simp: closed_how_def)

lemma calls_count:
  assumes "calls_inv L H km cs W s0 s"
  shows "count_list (sv_calls s c) Close = (if c \<in> set (closedConns (sv_pool s)) then 1 else 0)"
proof -
  have "if c \<in> set (closedConns (sv_pool s)) then closed_how L H km cs W s0 s c (sv_calls s c) else sv_calls s c = []"
    using assms unfolding calls_inv_def by blast
  then show ?thesis using closed_how_one by (auto split: if_splits)
qed

lemma count_distinct: "distinct xs \<Longrightarrow> count_list xs x = (if x \<in> set xs then 1 else 0)"
  by (induction xs) auto

lemma server_calls:
  assumes "server_run L H km cs W (init_server (init_pool n)) s"
  shows "calls_inv L H km cs W (init_server (init_pool n)) s"
  using assms by (intro calls_inv_run) (simp_all add: init_server_def init_pool_def)

subsection \<open>Properties of the server\<close>

text \<open>
  C16: the pool is the exact abstraction of the server: the steps of the server are, forgetting the
  calls, the steps of the pool; and in every state of a run, the calls made on a connection
  hold as many closes (none or one) as the pool has closed it.
\<close>

theorem server_refines_pool:
  assumes "server_run L H km cs W (init_server (init_pool n)) s" and "W w"
  shows "{sv_pool t |t. server_step L H km cs W s t} = {q. pool_step (sv_pool s) q}
    \<and> reachable (init_pool n) (sv_pool s)
    \<and> (\<forall>c. count_list (sv_calls s c) Close = count_list (closedConns (sv_pool s)) c
          \<and> count_list (sv_calls s c) Close \<le> 1)"
proof -
  have r: "reachable (init_pool n) (sv_pool s)" using server_run_pool [OF assms(1)] by (simp add: init_server_def)
  then have d: "distinct (closedConns (sv_pool s))" using pool_inv_reachable by (auto simp: pool_inv_def)
  have "count_list (sv_calls s c) Close = count_list (closedConns (sv_pool s)) c
      \<and> count_list (sv_calls s c) Close \<le> 1" for c
    unfolding calls_count [OF server_calls [OF assms(1)]] count_distinct [OF d] by simp
  then show ?thesis using r server_step_pool pool_step_server [of W w, OF assms(2)] by blast
qed

text \<open>A request that was accepted and is no longer in service was answered or turned away.\<close>

lemma request_fate:
  assumes "server_run L H km cs W (init_server (init_pool n)) s"
    and "c < accepted (sv_pool s)" "workers (sv_pool s) c \<noteq> Some Serving"
  shows "closed_how L H km cs W (init_server (init_pool n)) s c (sv_calls s c)"
proof -
  have "pool_inv (sv_pool s)"
    using pool_inv_reachable [of n] server_run_pool [OF assms(1)] by (simp add: init_server_def)
  then have "c \<in> set (closedConns (sv_pool s))"
    using assms(2,3) unfolding pool_inv_def in_phase_def by blast
  moreover have "if c \<in> set (closedConns (sv_pool s))
      then closed_how L H km cs W (init_server (init_pool n)) s c (sv_calls s c) else sv_calls s c = []"
    using server_calls [OF assms(1)] unfolding calls_inv_def by blast
  ultimately show ?thesis by simp
qed

text \<open>
  C8: the server as a whole: once it has started with a working attester, then whatever else is
  accepted, served or fails in between and however the workers are scheduled, a connection that
  carries the JSON of a well-formed arbitration request is, when its service is over,
  answered by one line that reads back to the successful response of the handler to that
  request and closed; unless it arrived when every worker was busy, and then it was only closed.
\<close>

theorem server_serves:
  assumes "tags_ok (lib_tags L)" "uuid_ok (lib_uuid L)" "cose_ascii (lib_cose L)"
    and "start_server (lib_crypto L) H listen w0 = (Inr (km, p), w1)"
    and "NSM_handle H = Inr att" "always_attests att"
    and "server_run L H (Some km) cs sound_world (init_server p) s"
    and "c < accepted (sv_pool s)" "workers (sv_pool s) c \<noteq> Some Serving"
    and "conn_SetReadDeadline (cs c) = None" "conn_SetWriteDeadline (cs c) = None"
    and "conn_Read (cs c) = Inr (json_print (enc_Request (lib_tags L) req))"
    and "good_Request req" "reqType req = ''arbitration_request''"
  shows "(\<exists>s'. sv_calls s c = [Close] \<and> server_run L H (Some km) cs sound_world (init_server p) s'
            \<and> server_run L H (Some km) cs sound_world s' s
            \<and> accepted (sv_pool s') = c \<and> card (dom (workers (sv_pool s'))) = capacity p)
    \<or> (\<exists>r w2 w3 t1 t2. HandleArbitrationRequest L (Some att) (Some km) req w2 = (Some r, w3) \<and> respSuccess r
        \<and> sv_calls s c = [SetReadDeadline t1, ReadAll, SetWriteDeadline t2,
                          Write (json_print (enc_Response r) @ [CHR 0x0A]), Close]
        \<and> json_Unmarshal dec_Response (json_print (enc_Response r)) zero_Response = Inr r)"
proof -
  obtain n where n: "p = init_pool (nat n)" by (rule start_server_state [OF assms(4)])
  have "closed_how L H (Some km) cs sound_world (init_server p) s c (sv_calls s c)"
    using request_fate assms(7-9) unfolding n by blast
  then consider "sv_calls s c = [Close]" "turned_away_in L H (Some km) cs sound_world (init_server p) s c"
    | w w' where "sound_world w" "handleConnection L H (cs c) (Some km) w = (sv_calls s c, w')"
    unfolding closed_how_def by blast
  then show ?thesis
  proof cases
    case 1
    then obtain s' where s': "server_run L H (Some km) cs sound_world (init_server p) s'"
      "server_run L H (Some km) cs sound_world s' s" "accepted (sv_pool s') = c"
      "\<not> slots (sv_pool s') < capacity (sv_pool s')"
      unfolding turned_away_in_def by blast
    have "pool_inv (sv_pool s')" "capacity (sv_pool s') = capacity p"
      using pool_inv_reachable [of "nat n"] server_run_pool [OF s'(1)] by (auto simp: n init_server_def init_pool_def)
    then have "card (dom (workers (sv_pool s'))) = capacity p" using s'(4) unfolding pool_inv_def by simp
    then show ?thesis using 1(1) s'(1-3) by blast
  next
    case 2
    obtain r w2 w3 w4 t1 t2 where
      h: "HandleArbitrationRequest L (Some att) (Some km) req w2 = (Some r, w3)" "respSuccess r"
      and e: "handleConnection L H (cs c) (Some km) w
          = ([SetReadDeadline t1, ReadAll, SetWriteDeadline t2, Write (json_print (enc_Response r) @ [CHR 0x0A]), Close], w4)"
      and d: "json_Unmarshal dec_Response (json_print (enc_Response r)) zero_Response = Inr r"
      using arbitration_conversation [OF assms(1-3,13,14,10,11,12,5,6) 2(1), of km] by blast
    have "sv_calls s c = [SetReadDeadline t1, ReadAll, SetWriteDeadline t2,
        Write (json_print (enc_Response r) @ [CHR 0x0A]), Close]"
      using e 2(2) by simp
    then show ?thesis using h d by blast
  qed
qed

subsection \<open>A run of the server on one request\<close>

lemma ex_run:
  assumes "p = init_pool (Suc n)" "handleConnection L H (cs 0) km w = (ev, w')" "W w"
  obtains s where "server_run L H km cs W (init_server p) s" "accepted (sv_pool s) = 1"
    "workers (sv_pool s) 0 = Some Releasing" "sv_calls s 0 = ev"
proof -
  let ?s0 = "init_server p"
  let ?s1 = "?s0\<lparr>sv_pool := start_worker (sv_pool ?s0)\<rparr>"
  let ?s2 = "?s1\<lparr>sv_pool := end_service 0 (sv_pool ?s1), sv_calls := (sv_calls ?s1)(0 := ev)\<rparr>"
  note i = init_server_def init_pool_def assms(1)
  have "server_run L H km cs W ?s0 ?s1"
    by (rule run_step [OF run_start srv_accept_slot]) (simp add: i)
  moreover have "server_step L H km cs W ?s1 ?s2"
    using assms(2,3) by (intro srv_served [where W = W and w = w and cs = cs and w' = w']) (simp_all add: i)
  ultimately have "server_run L H km cs W ?s0 ?s2" by (rule run_step)
  then show thesis using that [of ?s2] by (simp add: i)
qed

theorem server_refines_pool_witness:
  "\<exists>s :: server. accepted (sv_pool s) = 1
    \<and> {sv_pool t |t. server_step ex_libs ex_host (Some ex_km) (\<lambda>_. hello_conn) sound_world s t} = {q. pool_step (sv_pool s) q}
    \<and> count_list (sv_calls s 0) Close \<le> 1"
proof -
  obtain ev w' where h: "handleConnection ex_libs ex_host hello_conn (Some ex_km) ex_world = (ev, w')" by fastforce
  obtain s where s: "server_run ex_libs ex_host (Some ex_km) (\<lambda>_. hello_conn) sound_world (init_server (init_pool (Suc 0))) s"
    "accepted (sv_pool s) = 1"
    using ex_run [where cs = "\<lambda>_. hello_conn", OF refl h, of sound_world 0] ex_sound_world by metis
  show ?thesis using server_refines_pool [OF s(1), of ex_world] ex_sound_world s(2) by blast
qed

theorem server_serves_witness:
  "\<exists>(s :: server) (r :: EnclaveArbitrationResponse) t1 t2. accepted (sv_pool s) = 1 \<and> respSuccess r
    \<and> sv_calls s 0 = [SetReadDeadline t1, ReadAll, SetWriteDeadline t2,
                      Write (json_print (enc_Response r) @ [CHR 0x0A]), Close]"
proof (rule ex_start_server)
  fix km p w1
  assume st: "start_server ex_crypto ex_host (Inr ()) ex_world = (Inr (km, p), w1)"
  have l: "tags_ok (lib_tags ex_libs_hex)" "uuid_ok (lib_uuid ex_libs_hex)" "cose_ascii (lib_cose ex_libs_hex)"
    using ex_tags_ok ex_uuid_ok ValidString_hex by (simp_all add: ex_libs_hex_def ex_libs_def cose_ascii_def)
  have lc: "lib_crypto ex_libs_hex = ex_crypto" by (simp add: ex_libs_hex_def ex_libs_def)
  have q: "good_Request ex_req" "reqType ex_req = ''arbitration_request''"
    by (code_simp, simp add: ex_req_def)
  have c: "conn_SetReadDeadline ex_conn = None" "conn_SetWriteDeadline ex_conn = None"
    "conn_Read ex_conn = Inr (json_print (enc_Request (lib_tags ex_libs_hex) ex_req))"
    "NSM_handle ex_host = Inr ex_attester"
    by (simp_all add: ex_conn_def ex_host_def)
  obtain k where k: "p = init_pool (Suc k)"
    by (rule start_server_state [OF st]) (metis (no_types) nat_0_le Suc_nat_eq_nat_zadd1 zle_diff1_eq int_one_le_iff_zero_less not0_implies_Suc nat_0_iff not_less)
  obtain ev w' where h: "handleConnection ex_libs_hex ex_host ex_conn (Some km) ex_world = (ev, w')" by fastforce
  obtain s where s: "server_run ex_libs_hex ex_host (Some km) (\<lambda>_. ex_conn) sound_world (init_server p) s"
    "accepted (sv_pool s) = 1" "workers (sv_pool s) 0 = Some Releasing" "sv_calls s 0 = ev"
    using ex_run [where cs = "\<lambda>_. ex_conn", OF k h, of sound_world] ex_sound_world by metis
  have "sv_calls s 0 \<noteq> [Close]" using h handle_not_only_close s(4) by metis
  moreover have "0 < accepted (sv_pool s)" "workers (sv_pool s) 0 \<noteq> Some Serving" using s(2,3) by simp_all
  ultimately obtain r t1 t2 where "respSuccess r"
    "sv_calls s 0 = [SetReadDeadline t1, ReadAll, SetWriteDeadline t2,
       Write (json_print (enc_Response r) @ [CHR 0x0A]), Close]"
    using server_serves [OF l st [folded lc] c(4) ex_always_attests s(1) _ _ c(1-3) q] by fastforce
  then show ?thesis using s(2) by blast
qed

end
