(* ===== verification/Server_Deadline.thy ===== *)
theory Server_Deadline
  imports Server_Pool
begin

section \<open>cmd/enclave-server/main.go: the deadlines and the slots of the pool\<close>

text \<open>
  The server in time.  A peer may stay silent or stop reading for ever; what gives its worker
  slot back are the two deadlines that \<open>handleConnection\<close> sets on the connection.  Here the
  calls that \<open>handleConnection\<close> makes are run against the clock, where a read or a write blocks
  as \<open>net.Conn\<close> documents: until it is done or until its deadline has passed, and for ever when
  no deadline was set.  The accept loop is then run over the visits of such peers.  Times are
  nanoseconds.
\<close>

subsection \<open>A blocking call\<close>








subsection \<open>The accept loop in time\<close>

text \<open>
  The slots are those of the pool.  \<open>ends c\<close> is the end of the service of connection c.  Before
  the loop looks for a slot, the workers whose service has ended have given theirs back.
\<close>

definition give_back :: "nat \<Rightarrow> pool \<Rightarrow> pool" where
  "give_back c p = release_slot c (end_service c p)"

definition ended :: "(nat \<Rightarrow> int option) \<Rightarrow> int \<Rightarrow> nat \<Rightarrow> bool" where
  "ended ends now c = (case ends c of None \<Rightarrow> False | Some t \<Rightarrow> t < now)"

definition free_slot :: "(nat \<Rightarrow> int option) \<Rightarrow> int \<Rightarrow> nat \<Rightarrow> pool \<Rightarrow> pool" where
  "free_slot ends now c p = (if workers p c = Some Serving \<and> ended ends now c then give_back c p else p)"





subsection \<open>Every visit ends\<close>




subsection \<open>The slots come back\<close>


lemma free_slot_fields [simp]:
  "accepted (free_slot ends now c p) = accepted p" "capacity (free_slot ends now c p) = capacity p"
  "workers (free_slot ends now c p) c' =
     (if c' = c \<and> workers p c = Some Serving \<and> ended ends now c then None else workers p c')"
  by (auto simp: free_slot_def give_back_def)
















end
