(* ===== verification/Validation_Common.thy ===== *)
theory Validation_Common
  imports Go_Libs
begin

section \<open>validation/types.go, cert.go, pcr.go and attestation.go\<close>

text \<open>
  The platform-level checks of every attestation: measurements, certificate chain,
  signature.  openauction's verifiers and X.509 are parameters; a nil error is \<open>None\<close>.
\<close>

subsection \<open>Types and parameters\<close>

record PCRSet =
  PCR0 :: string
  PCR1 :: string
  PCR2 :: string
  CommitSHA :: string

record BaseValidationResult =
  PCRsValid :: bool
  CertificateValid :: bool
  SignatureValid :: bool
  ValidationDetails :: "string list"

definition Base_IsValid :: "'a BaseValidationResult_scheme \<Rightarrow> bool" where
  "Base_IsValid r \<longleftrightarrow> PCRsValid r \<and> CertificateValid r \<and> SignatureValid r"

text \<open>A parsed certificate is the bytes it was parsed from; a pool is a list of certificates.\<close>

record x509_Certificate =
  cert_Raw :: bytes

type_synonym CertPool = "x509_Certificate list"

record VerifyOptions =
  opt_Roots :: CertPool
  opt_Intermediates :: CertPool
  opt_AnyKeyUsage :: bool
  opt_CurrentTime :: gotime

record x509_pkg =
  ParseCertificate :: "bytes \<Rightarrow> x509_Certificate result"
  Certificate_Verify :: "x509_Certificate \<Rightarrow> VerifyOptions \<Rightarrow> goerr option"

record oavalidation =
  ValidatePCRs :: "PCRs \<Rightarrow> PCRSet list \<Rightarrow> bool \<times> int"
  oa_ValidateCertificateChain :: "string \<Rightarrow> string list \<Rightarrow> gotime \<Rightarrow> goerr option"
  VerifyCOSESignature :: "AttestationCOSEBase64 \<Rightarrow> string \<Rightarrow> goerr option"
  oa_LoadPCRsFromFile :: "string \<Rightarrow> PCRSet list result"

record vlibs =
  vl_print :: "int \<Rightarrow> bool"
  vl_uuid :: uuid_pkg
  vl_cose :: cose_pkg
  vl_tags :: wire_tags
  vl_oa :: oavalidation
  vl_x509 :: x509_pkg

subsection \<open>pcr.go\<close>

definition LoadPCRsFromFile :: "oavalidation \<Rightarrow> string \<Rightarrow> PCRSet list result" where
  "LoadPCRsFromFile V path = oa_LoadPCRsFromFile V path"

subsection \<open>cert.go\<close>

fun add_intermediates :: "x509_pkg \<Rightarrow> CertPool \<Rightarrow> string list \<Rightarrow> CertPool result" where
  "add_intermediates X pool [] = Inr pool"
| "add_intermediates X pool (caB64 # rest) =
     bind_result (wrap_err ''decode CA certificate'' (base64_DecodeString caB64)) (\<lambda>caDER.
     bind_result (wrap_err ''parse CA certificate'' (ParseCertificate X caDER)) (\<lambda>caCert.
     add_intermediates X (pool @ [caCert]) rest))"

definition validateCertificateChain ::
  "vlibs \<Rightarrow> string \<Rightarrow> string list \<Rightarrow> gotime \<Rightarrow> CertPool option \<Rightarrow> goerr option" where
  "validateCertificateChain V certB64 caBundleB64 attestationTime roots =
     (case roots of
        None \<Rightarrow> oa_ValidateCertificateChain (vl_oa V) certB64 caBundleB64 attestationTime
      | Some roots \<Rightarrow>
          (case wrap_err ''decode certificate'' (base64_DecodeString certB64) of
             Inl err \<Rightarrow> Some err
           | Inr certDER \<Rightarrow>
               (case wrap_err ''parse certificate'' (ParseCertificate (vl_x509 V) certDER) of
                  Inl err \<Rightarrow> Some err
                | Inr cert \<Rightarrow>
                    (case add_intermediates (vl_x509 V) [] caBundleB64 of
                       Inl err \<Rightarrow> Some err
                     | Inr intermediates \<Rightarrow>
                         map_option (Wrapf ''certificate chain validation failed'')
                           (Certificate_Verify (vl_x509 V) cert
                             \<lparr>opt_Roots = roots, opt_Intermediates = intermediates,
                              opt_AnyKeyUsage = True, opt_CurrentTime = attestationTime\<rparr>)))))"

subsection \<open>attestation.go\<close>

definition detail :: "string \<Rightarrow> 'a BaseValidationResult_scheme \<Rightarrow> 'a BaseValidationResult_scheme" where
  "detail s r = r\<lparr>ValidationDetails := ValidationDetails r @ [s]\<rparr>"

definition check_pcrs ::
  "vlibs \<Rightarrow> AttestationDoc \<Rightarrow> PCRSet list \<Rightarrow> BaseValidationResult \<Rightarrow> BaseValidationResult" where
  "check_pcrs V doc knownPCRs r =
     (let (pcrMatch, matchedSet) = ValidatePCRs (vl_oa V) (docPCRs doc) knownPCRs;
          r = r\<lparr>PCRsValid := pcrMatch\<rparr>
      in if \<not> pcrMatch then
           detail (''PCR2: '' @ ApplicationHash (docPCRs doc) @ '' (no match)'')
            (detail (''PCR1: '' @ KernelHash (docPCRs doc) @ '' (no match)'')
              (detail (''PCR0: '' @ ImageFileHash (docPCRs doc) @ '' (no match)'') r))
         else
           let r = detail ''PCR measurements valid'' r
           in if 0 \<le> matchedSet \<and> matchedSet < int (length knownPCRs)
              then detail (''Matched PCR set: #'' @ dec_nat (nat matchedSet) @ '' (commit: ''
                           @ CommitSHA (knownPCRs ! nat matchedSet) @ '')'') r
              else r)"

definition check_chain ::
  "vlibs \<Rightarrow> AttestationDoc \<Rightarrow> CertPool option \<Rightarrow> BaseValidationResult \<Rightarrow> BaseValidationResult" where
  "check_chain V doc roots r =
     (if Certificate doc = [] then detail ''Missing certificate'' (r\<lparr>CertificateValid := False\<rparr>)
      else if length (CABundle doc) = 0 then detail ''Missing CA bundle'' (r\<lparr>CertificateValid := False\<rparr>)
      else
        (case validateCertificateChain V (Certificate doc) (CABundle doc) (docTimestamp doc) roots of
           Some err \<Rightarrow>
             detail (''Certificate chain validation failed: '' @ error_string err) (r\<lparr>CertificateValid := False\<rparr>)
         | None \<Rightarrow> detail ''Certificate chain verified'' (r\<lparr>CertificateValid := True\<rparr>)))"

definition check_signature ::
  "vlibs \<Rightarrow> AttestationCOSEBase64 \<Rightarrow> AttestationDoc \<Rightarrow> BaseValidationResult \<Rightarrow> BaseValidationResult" where
  "check_signature V coseBase64 doc r =
     (case VerifyCOSESignature (vl_oa V) coseBase64 (Certificate doc) of
        Some err \<Rightarrow>
          detail (''COSE signature verification failed: '' @ error_string err) (r\<lparr>SignatureValid := False\<rparr>)
      | None \<Rightarrow> detail ''COSE signature verified'' (r\<lparr>SignatureValid := True\<rparr>))"

definition parse_doc :: "vlibs \<Rightarrow> AttestationCOSEBase64 \<Rightarrow> (AttestationDoc \<times> bytes) result" where
  "parse_doc V coseBase64 =
     bind_result (wrap_err ''decode COSE bytes'' (Decode_cose (vl_cose V) coseBase64)) (\<lambda>coseBytes.
     wrap_err ''parse attestation document'' (ParseAttestationDoc (vl_cose V) coseBytes))"

definition validateCommonAttestation ::
  "vlibs \<Rightarrow> AttestationCOSEBase64 \<Rightarrow> PCRSet list \<Rightarrow> CertPool option \<Rightarrow> BaseValidationResult result" where
  "validateCommonAttestation V coseBase64 knownPCRs roots =
     bind_result (parse_doc V coseBase64) (\<lambda>(doc, _).
     let r = \<lparr>PCRsValid = False, CertificateValid = False, SignatureValid = False, ValidationDetails = []\<rparr>
     in Inr (check_signature V coseBase64 doc (check_chain V doc roots (check_pcrs V doc knownPCRs r))))"

definition parseArbitrationAttestation ::
  "vlibs \<Rightarrow> AttestationCOSEBase64 \<Rightarrow> ArbitrationAttestationDoc result" where
  "parseArbitrationAttestation V coseBase64 =
     bind_result (parse_doc V coseBase64) (\<lambda>(attestationDoc, userDataBytes).
     if 0 < length userDataBytes then
       bind_result (wrap_err ''parse user data'' (json_Unmarshal dec_UserData userDataBytes zero_UserData)) (\<lambda>ud.
       Inr \<lparr>adDoc = attestationDoc, adUserData = Some ud\<rparr>)
     else Inr \<lparr>adDoc = attestationDoc, adUserData = None\<rparr>)"

subsection \<open>The contract of a check\<close>

text \<open>
  Every check of the validator decides one verdict, stores it in its own field, and adds
  lines to the report: the verdict does not depend on what the report holds, and nothing
  else changes.
\<close>

locale report_check =
  fixes run :: "'r \<Rightarrow> 'r" and details :: "'r \<Rightarrow> string list" and flag :: "'r \<Rightarrow> bool"
    and others :: "'r \<Rightarrow> 'o" and verdict :: bool
  assumes run_flag: "flag (run r) = verdict"
    and run_details: "\<exists>ds. ds \<noteq> [] \<and> details (run r) = details r @ ds"
    and run_others: "others (run r) = others r"
begin

lemma run_grows: "length (details r) < length (details (run r))"
  using run_details [of r] by auto

lemma run_keeps: "set (details r) \<subseteq> set (details (run r))"
  using run_details [of r] by auto

lemma run_twice: "flag (run (run r)) = flag (run r)" "others (run (run r)) = others r"
  by (simp_all add: run_flag run_others)

end

interpretation pcrs: report_check "check_pcrs V doc known" ValidationDetails PCRsValid
  "\<lambda>r. (CertificateValid r, SignatureValid r)" "fst (ValidatePCRs (vl_oa V) (docPCRs doc) known)"
  by unfold_locales (auto simp: check_pcrs_def detail_def Let_def split: prod.split)

definition chain_ok :: "vlibs \<Rightarrow> AttestationDoc \<Rightarrow> CertPool option \<Rightarrow> bool" where
  "chain_ok V doc roots \<longleftrightarrow>
     Certificate doc \<noteq> [] \<and> CABundle doc \<noteq> []
     \<and> validateCertificateChain V (Certificate doc) (CABundle doc) (docTimestamp doc) roots = None"

interpretation chain: report_check "check_chain V doc roots" ValidationDetails CertificateValid
  "\<lambda>r. (PCRsValid r, SignatureValid r)" "chain_ok V doc roots"
  by unfold_locales (auto simp: check_chain_def chain_ok_def detail_def split: option.split)

interpretation signature: report_check "check_signature V cose doc" ValidationDetails SignatureValid
  "\<lambda>r. (PCRsValid r, CertificateValid r)" "VerifyCOSESignature (vl_oa V) cose (Certificate doc) = None"
  by unfold_locales (auto simp: check_signature_def detail_def split: option.split)

definition platform_ok :: "vlibs \<Rightarrow> AttestationCOSEBase64 \<Rightarrow> AttestationDoc \<Rightarrow> PCRSet list \<Rightarrow> CertPool option \<Rightarrow> bool" where
  "platform_ok V cose doc known roots \<longleftrightarrow>
     fst (ValidatePCRs (vl_oa V) (docPCRs doc) known) \<and> chain_ok V doc roots
     \<and> VerifyCOSESignature (vl_oa V) cose (Certificate doc) = None"

lemma common_checks:
  assumes "parse_doc V cose = Inr (doc, ud)"
  shows "\<exists>r. validateCommonAttestation V cose known roots = Inr r
    \<and> PCRsValid r = fst (ValidatePCRs (vl_oa V) (docPCRs doc) known)
    \<and> CertificateValid r = chain_ok V doc roots
    \<and> SignatureValid r = (VerifyCOSESignature (vl_oa V) cose (Certificate doc) = None)"
  using assms signature.run_others [of V cose doc] chain.run_others [of V doc roots]
  by (simp add: validateCommonAttestation_def Let_def signature.run_flag chain.run_flag pcrs.run_flag)

lemma common_Inr_iff:
  "(\<exists>r. validateCommonAttestation V cose known roots = Inr r) \<longleftrightarrow> is_ok (parse_doc V cose)"
  by (auto simp: validateCommonAttestation_def result_simps Let_def)

lemma add_intermediates_Inr:
  "add_intermediates X pool cas = Inr p \<longleftrightarrow>
     (\<exists>certs. p = pool @ certs
        \<and> list_all2 (\<lambda>ca x. \<exists>d. base64_DecodeString ca = Inr d \<and> ParseCertificate X d = Inr x) cas certs)"
proof (induction cas arbitrary: pool)
  case (Cons ca cas)
  have "add_intermediates X pool (ca # cas) = Inr p \<longleftrightarrow>
      (\<exists>x certs. (\<exists>d. base64_DecodeString ca = Inr d \<and> ParseCertificate X d = Inr x) \<and> p = pool @ x # certs
        \<and> list_all2 (\<lambda>ca x. \<exists>d. base64_DecodeString ca = Inr d \<and> ParseCertificate X d = Inr x) cas certs)"
    by (auto simp: result_simps Cons.IH)
  then show ?case by (auto simp: list_all2_Cons1)
qed auto

text \<open>Verifiers that accept, for the concrete examples.\<close>

definition ex_oa :: oavalidation where
  "ex_oa =
     \<lparr>ValidatePCRs = (\<lambda>p ks. (\<exists>k \<in> set ks. PCR0 k = ImageFileHash p, 0)),
      oa_ValidateCertificateChain = (\<lambda>c cas t. None), VerifyCOSESignature = (\<lambda>cose c. None),
      oa_LoadPCRsFromFile = (\<lambda>path. Inr [])\<rparr>"

definition ex_x509 :: x509_pkg where
  "ex_x509 = \<lparr>ParseCertificate = (\<lambda>d. Inr \<lparr>cert_Raw = d\<rparr>), Certificate_Verify = (\<lambda>c opts. None)\<rparr>"

definition ex_vlibs :: vlibs where
  "ex_vlibs = \<lparr>vl_print = (\<lambda>_. False), vl_uuid = ex_uuid, vl_cose = ex_cose, vl_tags = ex_tags,
               vl_oa = ex_oa, vl_x509 = ex_x509\<rparr>"

definition ex_pcrs :: "PCRSet list" where
  "ex_pcrs = [\<lparr>PCR0 = ''p0'', PCR1 = ''p1'', PCR2 = ''p2'', CommitSHA = ''test''\<rparr>]"

lemma ex_platform_ok: "platform_ok ex_vlibs cose ex_doc ex_pcrs None"
  by (simp add: platform_ok_def chain_ok_def validateCertificateChain_def ex_vlibs_def ex_oa_def ex_doc_def
    ex_pcrs_def)

subsection \<open>Properties of the platform checks\<close>

text \<open>
  The platform checks fail with an error only when the envelope cannot be read; otherwise each of
  the three verdicts is that of its verifier on the document, a missing certificate or CA bundle
  counting as an invalid chain, and the three verdicts are independent.
\<close>

lemma validateCommonAttestation_verdicts:
  "case parse_doc V cose of
     Inl e \<Rightarrow> validateCommonAttestation V cose known roots = Inl e
   | Inr (doc, _) \<Rightarrow>
       \<exists>r. validateCommonAttestation V cose known roots = Inr r
         \<and> PCRsValid r = fst (ValidatePCRs (vl_oa V) (docPCRs doc) known)
         \<and> CertificateValid r = (Certificate doc \<noteq> [] \<and> CABundle doc \<noteq> []
             \<and> validateCertificateChain V (Certificate doc) (CABundle doc) (docTimestamp doc) roots = None)
         \<and> SignatureValid r = (VerifyCOSESignature (vl_oa V) cose (Certificate doc) = None)"
proof (cases "parse_doc V cose")
  case (Inl e)
  then show ?thesis by (simp add: validateCommonAttestation_def)
next
  case (Inr ds)
  then show ?thesis using common_checks [of V cose "fst ds" "snd ds" known roots]
    by (cases ds) (simp add: chain_ok_def)
qed

text \<open>
  C33: under an explicit root pool the chain is accepted exactly when the leaf and every certificate of
  the bundle decode and parse, and X.509 verifies the leaf against those roots with the bundle as
  intermediates, in order, for any key usage and at the attestation's time.
\<close>

theorem validateCertificateChain_iff:
  "validateCertificateChain V c cas t (Some roots) = None \<longleftrightarrow>
     (\<exists>der cert certs. base64_DecodeString c = Inr der \<and> ParseCertificate (vl_x509 V) der = Inr cert
        \<and> list_all2 (\<lambda>ca x. \<exists>d. base64_DecodeString ca = Inr d \<and> ParseCertificate (vl_x509 V) d = Inr x) cas certs
        \<and> Certificate_Verify (vl_x509 V) cert
            \<lparr>opt_Roots = roots, opt_Intermediates = certs, opt_AnyKeyUsage = True, opt_CurrentTime = t\<rparr> = None)
"
proof -
  have "validateCertificateChain V c cas t (Some roots) = None \<longleftrightarrow>
     (\<exists>der cert certs. base64_DecodeString c = Inr der \<and> ParseCertificate (vl_x509 V) der = Inr cert
        \<and> add_intermediates (vl_x509 V) [] cas = Inr certs
        \<and> Certificate_Verify (vl_x509 V) cert
            \<lparr>opt_Roots = roots, opt_Intermediates = certs, opt_AnyKeyUsage = True, opt_CurrentTime = t\<rparr> = None)"
    by (cases "base64_DecodeString c"; cases "ParseCertificate (vl_x509 V) (projr (base64_DecodeString c))";
        cases "add_intermediates (vl_x509 V) [] cas") (simp_all add: validateCertificateChain_def)
  then show ?thesis by (simp add: add_intermediates_Inr)
qed

end
