(* ===== verification/Validation_Arbitration.thy ===== *)
theory Validation_Arbitration
  imports Validation_Common Core_Hash
begin

section \<open>validation/arbitration.go: validating an arbitration attestation\<close>

text \<open>
  The user-data checks (bid inclusion or exclusion, request hash, winner) on top of the
  platform checks, and what a valid result means.
\<close>

subsection \<open>Types\<close>

type_synonym BidExpectation = int

definition ExpectIncluded :: BidExpectation where
  "ExpectIncluded = 0"

definition ExpectExcluded :: BidExpectation where
  "ExpectExcluded = 1"

record ArbitrationValidationInput =
  AttestationCOSEGzip_in :: AttestationCOSEGzip
  KnownPCRs :: "PCRSet list"
  RequestID :: string
  BidID :: string
  BidRevenue :: MicroDollars
  Expectation :: BidExpectation
  ExpectedExclusionReason :: string
  IsWinner :: bool
  Roots :: "CertPool option"

record ArbitrationValidationResult = BaseValidationResult +
  BidHashValid :: bool
  BidExclusionValid :: bool
  RequestHashValid :: bool
  WinnerValid :: bool

definition Arbitration_IsValid :: "ArbitrationValidationResult \<Rightarrow> bool" where
  "Arbitration_IsValid r \<longleftrightarrow>
     Base_IsValid r \<and> BidHashValid r \<and> BidExclusionValid r \<and> RequestHashValid r \<and> WinnerValid r"

subsection \<open>The checks\<close>

text \<open>
  Each takes the user data that \<open>doc.UserData\<close> points to and returns its verdict with the
  result it extended.
\<close>

fun exclusion_loop ::
  "vlibs \<Rightarrow> ArbitrationValidationInput \<Rightarrow> nat \<Rightarrow> ExcludedBid list \<Rightarrow> ArbitrationValidationResult
     \<Rightarrow> bool \<times> ArbitrationValidationResult" where
  "exclusion_loop V input n [] r =
     (False, detail (''Bid '' @ BidID input @ '' not found among '' @ dec_nat n @ '' attested exclusions'') r)"
| "exclusion_loop V input n (eb # ebs) r =
     (if exBidID eb = BidID input then
        if exReason eb = ExpectedExclusionReason input
        then (True, detail (''Bid exclusion confirmed: '' @ exBidID eb @ '' ('' @ exReason eb @ '')'') r)
        else (False, detail (''Bid exclusion reason mismatch: expected ''
                @ strconv_Quote (vl_print V) (ExpectedExclusionReason input) @ '', attestation has ''
                @ strconv_Quote (vl_print V) (exReason eb)) r)
      else exclusion_loop V input n ebs r)"

definition validateBidExclusion ::
  "vlibs \<Rightarrow> ArbitrationValidationInput \<Rightarrow> ArbitrationAttestationUserData \<Rightarrow> ArbitrationValidationResult
     \<Rightarrow> bool \<times> ArbitrationValidationResult" where
  "validateBidExclusion V input ud r =
     exclusion_loop V input (length (udExcludedBids ud)) (udExcludedBids ud) r"

definition canonicalBidID :: "vlibs \<Rightarrow> string \<Rightarrow> string" where
  "canonicalBidID V i =
     (case uuid_Parse (vl_uuid V) i of Inr u \<Rightarrow> uuid_String (vl_uuid V) u | Inl _ \<Rightarrow> i)"

fun find_hash :: "string \<Rightarrow> string list \<Rightarrow> bool" where
  "find_hash computed [] = False"
| "find_hash computed (h # hs) = (if h = computed then True else find_hash computed hs)"

definition validateBidHash ::
  "vlibs \<Rightarrow> ArbitrationValidationInput \<Rightarrow> ArbitrationAttestationUserData \<Rightarrow> ArbitrationValidationResult
     \<Rightarrow> bool \<times> ArbitrationValidationResult" where
  "validateBidHash V input ud r =
     (let nonce = udBidHashNonce ud in
      if nonce = [] then (False, detail ''Bid hash nonce missing from attestation'' r)
      else
        let computed = ComputeBidHash (canonicalBidID V (BidID input)) (BidRevenue input) nonce
        in if find_hash computed (udBidHashes ud)
           then (True, detail (''Bid hash found in attestation: '' @ computed) r)
           else (False, detail (''Bid hash NOT found in attestation. Computed: '' @ computed @ '' (over ''
                   @ dec_nat (length (udBidHashes ud)) @ '' attested hashes)'') r))"

definition validateRequestHash ::
  "ArbitrationValidationInput \<Rightarrow> ArbitrationAttestationUserData \<Rightarrow> ArbitrationValidationResult
     \<Rightarrow> bool \<times> ArbitrationValidationResult" where
  "validateRequestHash input ud r =
     (let nonce = udRequestNonce ud in
      if nonce = [] then (False, detail ''Request hash nonce missing from attestation'' r)
      else
        let computed = ComputeRequestHash (RequestID input) nonce
        in if computed = udRequestHash ud then (True, detail ''Request hash validation passed'' r)
           else (False, detail (''Request hash mismatch: computed '' @ computed @ '', attestation has ''
                   @ udRequestHash ud) r))"

definition actuallyWon :: "vlibs \<Rightarrow> ArbitrationValidationInput \<Rightarrow> ArbitrationAttestationUserData \<Rightarrow> bool" where
  "actuallyWon V input ud \<longleftrightarrow>
     (case udWinner ud of None \<Rightarrow> False | Some winner \<Rightarrow> wsID winner = canonicalBidID V (BidID input))"

definition validateWinner ::
  "vlibs \<Rightarrow> ArbitrationValidationInput \<Rightarrow> ArbitrationAttestationUserData \<Rightarrow> ArbitrationValidationResult
     \<Rightarrow> bool \<times> ArbitrationValidationResult" where
  "validateWinner V input ud r =
     (if IsWinner input = actuallyWon V input ud then
        (True,
         if actuallyWon V input ud
         then detail (''Winner validation passed: bid won as expected (revenue: ''
                @ FormatInt (wsRevenue (the (udWinner ud))) @ '' micros)'') r
         else detail ''Winner validation passed: bid lost as expected'' r)
      else
        (False,
         if IsWinner input \<and> \<not> actuallyWon V input ud
         then detail ''Winner validation failed: expected to win, but did not win'' r
         else detail (''Winner validation failed: expected to lose, but won with revenue ''
                @ FormatInt (wsRevenue (the (udWinner ud))) @ '' micros'') r))"

subsection \<open>The pipeline\<close>

text \<open>
  The assignments \<open>result.X = validateX(...)\<close> of the source: the check's result with its
  verdict stored.
\<close>

definition check_exclusion ::
  "vlibs \<Rightarrow> ArbitrationValidationInput \<Rightarrow> ArbitrationAttestationUserData \<Rightarrow> ArbitrationValidationResult
     \<Rightarrow> ArbitrationValidationResult" where
  "check_exclusion V input ud r =
     (let (v, r) = validateBidExclusion V input ud r in r\<lparr>BidExclusionValid := v\<rparr>)"

definition check_bid_hash ::
  "vlibs \<Rightarrow> ArbitrationValidationInput \<Rightarrow> ArbitrationAttestationUserData \<Rightarrow> ArbitrationValidationResult
     \<Rightarrow> ArbitrationValidationResult" where
  "check_bid_hash V input ud r =
     (let (v, r) = validateBidHash V input ud r in r\<lparr>BidHashValid := v\<rparr>)"

definition check_winner ::
  "vlibs \<Rightarrow> ArbitrationValidationInput \<Rightarrow> ArbitrationAttestationUserData \<Rightarrow> ArbitrationValidationResult
     \<Rightarrow> ArbitrationValidationResult" where
  "check_winner V input ud r =
     (let (v, r) = validateWinner V input ud r in r\<lparr>WinnerValid := v\<rparr>)"

definition check_request_hash ::
  "ArbitrationValidationInput \<Rightarrow> ArbitrationAttestationUserData \<Rightarrow> ArbitrationValidationResult
     \<Rightarrow> ArbitrationValidationResult" where
  "check_request_hash input ud r =
     (let (v, r) = validateRequestHash input ud r in r\<lparr>RequestHashValid := v\<rparr>)"

definition with_base :: "BaseValidationResult \<Rightarrow> ArbitrationValidationResult" where
  "with_base b =
     \<lparr>PCRsValid = PCRsValid b, CertificateValid = CertificateValid b, SignatureValid = SignatureValid b,
      ValidationDetails = ValidationDetails b, BidHashValid = False, BidExclusionValid = False,
      RequestHashValid = False, WinnerValid = False\<rparr>"

definition check_user_data ::
  "vlibs \<Rightarrow> ArbitrationValidationInput \<Rightarrow> ArbitrationAttestationUserData \<Rightarrow> ArbitrationValidationResult
     \<Rightarrow> ArbitrationValidationResult" where
  "check_user_data V input ud r =
     check_request_hash input ud
       (if Expectation input = ExpectExcluded
        then (check_exclusion V input ud r)\<lparr>BidHashValid := True, WinnerValid := True\<rparr>
        else (check_winner V input ud (check_bid_hash V input ud r))\<lparr>BidExclusionValid := True\<rparr>)"

definition ValidateArbitrationAttestation ::
  "vlibs \<Rightarrow> ArbitrationValidationInput option \<Rightarrow> ArbitrationValidationResult result" where
  "ValidateArbitrationAttestation V input =
     (case input of
        None \<Rightarrow> Inl (Errorf ''nil input'')
      | Some input \<Rightarrow>
          if length (KnownPCRs input) = 0 then Inl (Errorf ''no PCR sets configured'')
          else
            bind_result (wrap_err ''decompress attestation''
                          (Decompress (vl_cose V) (AttestationCOSEGzip_in input))) (\<lambda>cose.
            let coseB64 = EncodeBase64 (vl_cose V) cose in
            bind_result (validateCommonAttestation V coseB64 (KnownPCRs input) (Roots input)) (\<lambda>base.
            bind_result (wrap_err ''parse arbitration attestation'' (parseArbitrationAttestation V coseB64)) (\<lambda>doc.
            let result = with_base base in
            case adUserData doc of
              None \<Rightarrow> Inr (detail ''Attestation user data missing'' result)
            | Some ud \<Rightarrow> Inr (check_user_data V input ud result)))))"

subsection \<open>The verdicts\<close>

text \<open>The first entry of the list with the caller's id decides the exclusion.\<close>

definition excluded_as_expected :: "ArbitrationValidationInput \<Rightarrow> ArbitrationAttestationUserData \<Rightarrow> bool" where
  "excluded_as_expected input ud \<longleftrightarrow>
     (case find (\<lambda>eb. exBidID eb = BidID input) (udExcludedBids ud) of
        None \<Rightarrow> False | Some eb \<Rightarrow> exReason eb = ExpectedExclusionReason input)"

definition bid_attested :: "vlibs \<Rightarrow> ArbitrationValidationInput \<Rightarrow> ArbitrationAttestationUserData \<Rightarrow> bool" where
  "bid_attested V input ud \<longleftrightarrow>
     udBidHashNonce ud \<noteq> []
     \<and> ComputeBidHash (canonicalBidID V (BidID input)) (BidRevenue input) (udBidHashNonce ud) \<in> set (udBidHashes ud)"

definition request_attested :: "ArbitrationValidationInput \<Rightarrow> ArbitrationAttestationUserData \<Rightarrow> bool" where
  "request_attested input ud \<longleftrightarrow>
     udRequestNonce ud \<noteq> [] \<and> udRequestHash ud = ComputeRequestHash (RequestID input) (udRequestNonce ud)"

lemma find_hash_in: "find_hash h hs \<longleftrightarrow> h \<in> set hs"
  by (induction hs) auto

lemma exclusion_loop_verdict:
  "fst (exclusion_loop V input n ebs r) \<longleftrightarrow>
     (case find (\<lambda>eb. exBidID eb = BidID input) ebs of
        None \<Rightarrow> False | Some eb \<Rightarrow> exReason eb = ExpectedExclusionReason input)"
  by (induction ebs) auto

lemma exclusion_loop_adds: "\<exists>s. snd (exclusion_loop V input n ebs r) = detail s r"
  by (induction ebs) auto

text \<open>All the fields a check leaves alone, by the field it stores.\<close>

definition base_of :: "ArbitrationValidationResult \<Rightarrow> bool \<times> bool \<times> bool" where
  "base_of r = (PCRsValid r, CertificateValid r, SignatureValid r)"

lemma detail_fields [simp]:
  "BidHashValid (detail s r) = BidHashValid r" "BidExclusionValid (detail s r) = BidExclusionValid r"
  "RequestHashValid (detail s r) = RequestHashValid r" "WinnerValid (detail s r) = WinnerValid r"
  "base_of (detail s r) = base_of r" "ValidationDetails (detail s r) = ValidationDetails r @ [s]"
  by (simp_all add: detail_def base_of_def)

lemma base_of_update [simp]:
  "base_of (r\<lparr>BidHashValid := a\<rparr>) = base_of r" "base_of (r\<lparr>BidExclusionValid := a\<rparr>) = base_of r"
  "base_of (r\<lparr>RequestHashValid := a\<rparr>) = base_of r" "base_of (r\<lparr>WinnerValid := a\<rparr>) = base_of r"
  by (simp_all add: base_of_def)

interpretation exclusion: report_check "check_exclusion V input ud" ValidationDetails BidExclusionValid
  "\<lambda>r. (base_of r, BidHashValid r, RequestHashValid r, WinnerValid r)" "excluded_as_expected input ud"
proof unfold_locales
  fix r :: ArbitrationValidationResult
  obtain s where s: "snd (validateBidExclusion V input ud r) = detail s r"
    using exclusion_loop_adds unfolding validateBidExclusion_def by blast
  have f: "fst (validateBidExclusion V input ud r) = excluded_as_expected input ud"
    by (simp add: validateBidExclusion_def exclusion_loop_verdict excluded_as_expected_def)
  have e: "check_exclusion V input ud r = (detail s r)\<lparr>BidExclusionValid := excluded_as_expected input ud\<rparr>"
    using s f by (cases "validateBidExclusion V input ud r") (simp add: check_exclusion_def)
  show "BidExclusionValid (check_exclusion V input ud r) = excluded_as_expected input ud"
    "\<exists>ds. ds \<noteq> [] \<and> ValidationDetails (check_exclusion V input ud r) = ValidationDetails r @ ds"
    "(base_of (check_exclusion V input ud r), BidHashValid (check_exclusion V input ud r),
      RequestHashValid (check_exclusion V input ud r), WinnerValid (check_exclusion V input ud r))
     = (base_of r, BidHashValid r, RequestHashValid r, WinnerValid r)"
    by (simp_all add: e)
qed

interpretation bid_hash: report_check "check_bid_hash V input ud" ValidationDetails BidHashValid
  "\<lambda>r. (base_of r, BidExclusionValid r, RequestHashValid r, WinnerValid r)" "bid_attested V input ud"
  by unfold_locales (auto simp: check_bid_hash_def validateBidHash_def bid_attested_def find_hash_in Let_def)

interpretation winner: report_check "check_winner V input ud" ValidationDetails WinnerValid
  "\<lambda>r. (base_of r, BidHashValid r, BidExclusionValid r, RequestHashValid r)"
  "IsWinner input = actuallyWon V input ud"
  by unfold_locales (auto simp: check_winner_def validateWinner_def)

interpretation request_hash: report_check "check_request_hash input ud" ValidationDetails RequestHashValid
  "\<lambda>r. (base_of r, BidHashValid r, BidExclusionValid r, WinnerValid r)" "request_attested input ud"
  by unfold_locales (auto simp: check_request_hash_def validateRequestHash_def request_attested_def Let_def)

subsection \<open>What a valid result means\<close>

definition user_data_ok :: "vlibs \<Rightarrow> ArbitrationValidationInput \<Rightarrow> ArbitrationAttestationUserData \<Rightarrow> bool" where
  "user_data_ok V input ud \<longleftrightarrow>
     request_attested input ud
     \<and> (if Expectation input = ExpectExcluded then excluded_as_expected input ud
        else bid_attested V input ud \<and> IsWinner input = actuallyWon V input ud)"

lemma base_of_IsValid: "Base_IsValid r \<longleftrightarrow> base_of r = (True, True, True)"
  by (simp add: Base_IsValid_def base_of_def)

lemma base_of_with_base: "base_of (with_base b) = (PCRsValid b, CertificateValid b, SignatureValid b)"
  by (simp add: base_of_def with_base_def)

lemma check_user_data_base: "base_of (check_user_data V input ud r) = base_of r"
  using request_hash.run_others exclusion.run_others [of V input ud r] bid_hash.run_others [of V input ud r]
    winner.run_others [of V input ud "check_bid_hash V input ud r"]
  by (simp add: check_user_data_def)

lemma check_user_data_flags:
  "RequestHashValid (check_user_data V input ud r) = request_attested input ud"
  "BidExclusionValid (check_user_data V input ud r)
    = (Expectation input = ExpectExcluded \<longrightarrow> excluded_as_expected input ud)"
  "BidHashValid (check_user_data V input ud r)
    = (Expectation input \<noteq> ExpectExcluded \<longrightarrow> bid_attested V input ud)"
  "WinnerValid (check_user_data V input ud r)
    = (Expectation input \<noteq> ExpectExcluded \<longrightarrow> IsWinner input = actuallyWon V input ud)"
  using request_hash.run_others exclusion.run_flag [of V input ud r] bid_hash.run_flag [of V input ud r]
    winner.run_others [of V input ud "check_bid_hash V input ud r"] winner.run_flag [of V input ud "check_bid_hash V input ud r"]
  by (simp_all add: check_user_data_def request_hash.run_flag)

lemma check_user_data_valid:
  "Arbitration_IsValid (check_user_data V input ud r) \<longleftrightarrow> base_of r = (True, True, True) \<and> user_data_ok V input ud"
  unfolding Arbitration_IsValid_def base_of_IsValid check_user_data_base check_user_data_flags user_data_ok_def
  by auto

lemma parseArbitration_Inr_iff:
  "parseArbitrationAttestation V cose = Inr d \<longleftrightarrow>
     (\<exists>doc s. parse_doc V cose = Inr (doc, s) \<and>
        (if s = [] then d = \<lparr>adDoc = doc, adUserData = None\<rparr>
         else \<exists>ud. json_Unmarshal dec_UserData s zero_UserData = Inr ud
                \<and> d = \<lparr>adDoc = doc, adUserData = Some ud\<rparr>))"
  by (auto simp: parseArbitrationAttestation_def result_simps split: prod.splits)

lemma ValidateArbitration_Inr_iff:
  "ValidateArbitrationAttestation V (Some input) = Inr r \<longleftrightarrow>
     KnownPCRs input \<noteq> [] \<and>
     (\<exists>cose base doc. Decompress (vl_cose V) (AttestationCOSEGzip_in input) = Inr cose
        \<and> validateCommonAttestation V (EncodeBase64 (vl_cose V) cose) (KnownPCRs input) (Roots input) = Inr base
        \<and> parseArbitrationAttestation V (EncodeBase64 (vl_cose V) cose) = Inr doc
        \<and> r = (case adUserData doc of None \<Rightarrow> detail ''Attestation user data missing'' (with_base base)
               | Some ud \<Rightarrow> check_user_data V input ud (with_base base)))"
proof -
  have "(case x of None \<Rightarrow> Inr a | Some y \<Rightarrow> Inr (f y)) = (Inr r :: ArbitrationValidationResult result) \<longleftrightarrow> r = (case x of None \<Rightarrow> a | Some y \<Rightarrow> f y)"
    for x :: "ArbitrationAttestationUserData option" and a :: ArbitrationValidationResult and f
    by (cases x) auto
  then show ?thesis by (simp add: ValidateArbitrationAttestation_def result_simps Let_def)
qed

lemma missing_user_data_invalid: "\<not> Arbitration_IsValid (detail s (with_base b))"
  by (simp add: Arbitration_IsValid_def with_base_def detail_def)

text \<open>
  The abstract specification: a valid result stands for these facts about the envelope.
\<close>

definition arbitration_spec :: "vlibs \<Rightarrow> ArbitrationValidationInput \<Rightarrow> bool" where
  "arbitration_spec V input \<longleftrightarrow>
     KnownPCRs input \<noteq> [] \<and>
     (\<exists>cose doc s ud. Decompress (vl_cose V) (AttestationCOSEGzip_in input) = Inr cose
        \<and> parse_doc V (EncodeBase64 (vl_cose V) cose) = Inr (doc, s) \<and> s \<noteq> []
        \<and> json_Unmarshal dec_UserData s zero_UserData = Inr ud
        \<and> platform_ok V (EncodeBase64 (vl_cose V) cose) doc (KnownPCRs input) (Roots input)
        \<and> user_data_ok V input ud)"

lemma base_platform:
  assumes "parse_doc V cose = Inr (doc, s)" and "validateCommonAttestation V cose known roots = Inr b"
  shows "base_of (with_base b) = (True, True, True) \<longleftrightarrow> platform_ok V cose doc known roots"
proof -
  obtain r where "validateCommonAttestation V cose known roots = Inr r"
    "PCRsValid r = fst (ValidatePCRs (vl_oa V) (docPCRs doc) known)"
    "CertificateValid r = chain_ok V doc roots"
    "SignatureValid r = (VerifyCOSESignature (vl_oa V) cose (Certificate doc) = None)"
    using common_checks [OF assms(1)] by blast
  then show ?thesis using assms(2) by (auto simp: base_of_with_base platform_ok_def)
qed

lemma valid_spec:
  assumes "ValidateArbitrationAttestation V (Some input) = Inr r" and "Arbitration_IsValid r"
  shows "arbitration_spec V input"
proof -
  obtain cose base d where k: "KnownPCRs input \<noteq> []" "Arbitration_IsValid r"
    and c: "Decompress (vl_cose V) (AttestationCOSEGzip_in input) = Inr cose"
    and b: "validateCommonAttestation V (EncodeBase64 (vl_cose V) cose) (KnownPCRs input) (Roots input) = Inr base"
    and d: "parseArbitrationAttestation V (EncodeBase64 (vl_cose V) cose) = Inr d"
    and r: "r = (case adUserData d of None \<Rightarrow> detail ''Attestation user data missing'' (with_base base)
               | Some ud \<Rightarrow> check_user_data V input ud (with_base base))"
    using assms by (auto simp: ValidateArbitration_Inr_iff)
  from k(2) r obtain ud where ud: "adUserData d = Some ud" "r = check_user_data V input ud (with_base base)"
    using missing_user_data_invalid by (cases "adUserData d") auto
  obtain doc s where s: "parse_doc V (EncodeBase64 (vl_cose V) cose) = Inr (doc, s)" "s \<noteq> []"
    "json_Unmarshal dec_UserData s zero_UserData = Inr ud"
    using d ud(1) by (auto simp: parseArbitration_Inr_iff split: if_splits)
  show "arbitration_spec V input"
    using k c s base_platform [OF s(1) b] unfolding arbitration_spec_def ud(2) check_user_data_valid by blast
qed

lemma spec_valid:
  assumes "arbitration_spec V input"
  shows "\<exists>r. ValidateArbitrationAttestation V (Some input) = Inr r \<and> Arbitration_IsValid r"
proof -
  obtain cose doc s ud where k: "KnownPCRs input \<noteq> []"
    and c: "Decompress (vl_cose V) (AttestationCOSEGzip_in input) = Inr cose"
    and s: "parse_doc V (EncodeBase64 (vl_cose V) cose) = Inr (doc, s)" "s \<noteq> []"
      "json_Unmarshal dec_UserData s zero_UserData = Inr ud"
    and p: "platform_ok V (EncodeBase64 (vl_cose V) cose) doc (KnownPCRs input) (Roots input)"
      "user_data_ok V input ud"
    using assms unfolding arbitration_spec_def by blast
  obtain base where b: "validateCommonAttestation V (EncodeBase64 (vl_cose V) cose) (KnownPCRs input) (Roots input) = Inr base"
    using common_checks [OF s(1)] by blast
  have d: "parseArbitrationAttestation V (EncodeBase64 (vl_cose V) cose) = Inr \<lparr>adDoc = doc, adUserData = Some ud\<rparr>"
    using s by (simp add: parseArbitration_Inr_iff)
  have "ValidateArbitrationAttestation V (Some input) = Inr (check_user_data V input ud (with_base base))"
    using k c b d by (simp add: ValidateArbitration_Inr_iff)
  then show "\<exists>r. ValidateArbitrationAttestation V (Some input) = Inr r \<and> Arbitration_IsValid r"
    using p base_platform [OF s(1) b] by (simp add: check_user_data_valid)
qed

subsection \<open>Properties of the arbitration validator\<close>

text \<open>
  C7: the validator refines its specification: it reports a valid result exactly when the envelope
  decompresses and parses, its user data decodes, the measurements, certificate chain and
  signature check out, the request hash is the caller's, and the caller's bid is hashed among
  the participants with the expected outcome (or is listed as excluded for the expected reason).
\<close>

theorem ValidateArbitration_refines:
  "(\<exists>r. ValidateArbitrationAttestation V (Some input) = Inr r \<and> Arbitration_IsValid r)
     \<longleftrightarrow> arbitration_spec V input"
  using valid_spec spec_valid by blast

text \<open>
  C31: the validator fails with an error exactly when there is no input, no trusted measurement, or the
  envelope or its user data cannot be read; a failed check is never an error but a report.
\<close>

theorem ValidateArbitration_error_iff:
  "(\<exists>e. ValidateArbitrationAttestation V input = Inl e) \<longleftrightarrow>
     (case input of None \<Rightarrow> True
      | Some i \<Rightarrow> KnownPCRs i = [] \<or>
          (case Decompress (vl_cose V) (AttestationCOSEGzip_in i) of
             Inl _ \<Rightarrow> True
           | Inr cose \<Rightarrow>
               (case parse_doc V (EncodeBase64 (vl_cose V) cose) of
                  Inl _ \<Rightarrow> True
                | Inr (doc, s) \<Rightarrow> s \<noteq> [] \<and> \<not> is_ok (json_Unmarshal dec_UserData s zero_UserData))))"
proof (cases input)
  case None
  then show ?thesis by (simp add: ValidateArbitrationAttestation_def)
next
  case (Some i)
  note def = Some ValidateArbitrationAttestation_def validateCommonAttestation_def
    parseArbitrationAttestation_def Let_def
  show ?thesis
  proof (cases "KnownPCRs i = []")
    case False
    show ?thesis
    proof (cases "Decompress (vl_cose V) (AttestationCOSEGzip_in i)")
      case c: (Inr cose)
      show ?thesis
      proof (cases "parse_doc V (EncodeBase64 (vl_cose V) cose)")
        case p: (Inr ds)
        obtain doc s where ds: "ds = (doc, s)" by (cases ds)
        show ?thesis
          by (cases "json_Unmarshal dec_UserData s zero_UserData")
            (use False in \<open>simp_all add: def c p ds\<close>)
      qed (use False in \<open>simp add: def c\<close>)
    qed (use False in \<open>simp add: def\<close>)
  qed (simp add: def)
qed

text \<open>
  C32: on the included path a bid id counts as the uuid it spells: two spellings of one uuid get the
  same report.
\<close>

theorem ValidateArbitration_id_spelling:
  assumes "uuid_Parse (vl_uuid V) a = Inr u" and "uuid_Parse (vl_uuid V) b = Inr u"
    and "Expectation input \<noteq> ExpectExcluded"
  shows "ValidateArbitrationAttestation V (Some (input\<lparr>BidID := a\<rparr>))
    = ValidateArbitrationAttestation V (Some (input\<lparr>BidID := b\<rparr>))"
proof -
  have c: "canonicalBidID V a = canonicalBidID V b" using assms(1,2) by (simp add: canonicalBidID_def)
  have won: "actuallyWon V (input\<lparr>BidID := a\<rparr>) = actuallyWon V (input\<lparr>BidID := b\<rparr>)"
    by (rule ext) (simp add: actuallyWon_def c split: option.split)
  have w: "check_winner V (input\<lparr>BidID := a\<rparr>) = check_winner V (input\<lparr>BidID := b\<rparr>)"
    unfolding check_winner_def validateWinner_def won by (simp cong: if_cong)
  have h: "check_bid_hash V (input\<lparr>BidID := a\<rparr>) = check_bid_hash V (input\<lparr>BidID := b\<rparr>)"
    unfolding check_bid_hash_def validateBidHash_def by (simp add: c cong: if_cong)
  have q: "check_request_hash (input\<lparr>BidID := a\<rparr>) = check_request_hash (input\<lparr>BidID := b\<rparr>)"
    unfolding check_request_hash_def validateRequestHash_def by (simp cong: if_cong)
  have eq: "check_user_data V (input\<lparr>BidID := a\<rparr>) = check_user_data V (input\<lparr>BidID := b\<rparr>)"
    unfolding check_user_data_def w h q using assms(3) by simp
  show ?thesis unfolding ValidateArbitrationAttestation_def option.case eq by simp
qed

definition ex_input :: ArbitrationValidationInput where
  "ex_input =
     \<lparr>AttestationCOSEGzip_in = ''{}'', KnownPCRs = ex_pcrs, RequestID = ''req-1'', BidID = ''7'', BidRevenue = 100,
      Expectation = ExpectIncluded, ExpectedExclusionReason = [], IsWinner = True, Roots = None\<rparr>"

theorem ValidateArbitration_id_spelling_witness:
  "ValidateArbitrationAttestation ex_vlibs (Some (ex_input\<lparr>BidID := ''7''\<rparr>))
    = ValidateArbitrationAttestation ex_vlibs (Some (ex_input\<lparr>BidID := ''007''\<rparr>))"
  by (rule ValidateArbitration_id_spelling [where u = 7])
    (simp_all add: ex_vlibs_def ex_uuid_def is_digit_def ex_input_def ExpectExcluded_def ExpectIncluded_def)

end
