(* ===== verification/Go_Path.thy ===== *)
theory Go_Path
  imports Prelude
begin

section \<open>Go's path/filepath on Unix\<close>

text \<open>
  The lexical operations on paths that the source uses, by the elements between slashes:
  \<open>Clean\<close> drops empty elements and dots, and lets a double dot take away the element before
  it; it keeps leading double dots of a relative path and drops those of a rooted one.
\<close>

fun split_slash :: "string \<Rightarrow> string list" where
  "split_slash [] = [[]]"
| "split_slash (c # s) =
     (if c = CHR ''/'' then [] # split_slash s
      else (case split_slash s of [] \<Rightarrow> [[c]] | e # es \<Rightarrow> (c # e) # es))"

fun join_slash :: "string list \<Rightarrow> string" where
  "join_slash [] = []"
| "join_slash [e] = e"
| "join_slash (e # f # es) = e @ CHR ''/'' # join_slash (f # es)"

fun clean_elem :: "bool \<Rightarrow> string \<Rightarrow> string list \<Rightarrow> string list" where
  "clean_elem rooted e st =
     (if e = [] \<or> e = ''.'' then st
      else if e = ''..'' then
        (case st of
           [] \<Rightarrow> if rooted then [] else [e]
         | t # ts \<Rightarrow> if t = ''..'' then e # st else ts)
      else e # st)"

definition Clean :: "string \<Rightarrow> string" where
  "Clean path =
     (if path = [] then ''.''
      else
        let rooted = (hd path = CHR ''/'');
            es = rev (fold (clean_elem rooted) (split_slash path) []);
            out = (if rooted then ''/'' else []) @ join_slash es
        in if out = [] then ''.'' else out)"

definition Dir :: "string \<Rightarrow> string" where
  "Dir path = Clean (rev (dropWhile (\<lambda>c. c \<noteq> CHR ''/'') (rev path)))"

definition Join :: "string list \<Rightarrow> string" where
  "Join elem = (case dropWhile (\<lambda>e. e = []) elem of [] \<Rightarrow> [] | e # es \<Rightarrow> Clean (join_slash (e # es)))"

subsection \<open>Rooted paths of proper elements\<close>

text \<open>The path that names the given elements from the root, with a slash before each.\<close>

definition rooted_path :: "string list \<Rightarrow> string" where
  "rooted_path es = concat (map (\<lambda>e. CHR ''/'' # e) es)"

definition proper :: "string \<Rightarrow> bool" where
  "proper e \<longleftrightarrow> e \<noteq> [] \<and> e \<noteq> ''.'' \<and> e \<noteq> ''..'' \<and> CHR ''/'' \<notin> set e"

lemma split_slash_nonempty: "split_slash s \<noteq> []"
  by (induction s) (auto split: list.split)

lemma split_elem: "CHR ''/'' \<notin> set e \<Longrightarrow> split_slash (e @ CHR ''/'' # s) = e # split_slash s"
  by (induction e) auto

lemma split_last: "CHR ''/'' \<notin> set e \<Longrightarrow> split_slash e = [e]"
  by (induction e) auto

lemma split_rooted:
  "list_all proper es \<Longrightarrow> split_slash (rooted_path es) = [] # es"
  "list_all proper es \<Longrightarrow> split_slash (rooted_path es @ ''/'') = [] # es @ [[]]"
proof -
  have a: "list_all proper es \<Longrightarrow> CHR ''/'' \<notin> set e \<Longrightarrow> split_slash (e @ rooted_path es) = e # es" for e
    by (induction es arbitrary: e) (auto simp: rooted_path_def split_elem split_last proper_def)
  have b: "list_all proper es \<Longrightarrow> CHR ''/'' \<notin> set e \<Longrightarrow> split_slash (e @ rooted_path es @ ''/'') = e # es @ [[]]" for e
    by (induction es arbitrary: e) (auto simp: rooted_path_def split_elem proper_def)
  show "list_all proper es \<Longrightarrow> split_slash (rooted_path es) = [] # es"
    and "list_all proper es \<Longrightarrow> split_slash (rooted_path es @ ''/'') = [] # es @ [[]]"
    using a [of "[]"] b [of "[]"] by simp_all
qed

lemma clean_proper: "list_all proper es \<Longrightarrow> fold (clean_elem r) es st = rev es @ st"
  by (induction es arbitrary: st) (simp_all add: proper_def)

lemma join_rooted: "es \<noteq> [] \<Longrightarrow> CHR ''/'' # join_slash es = rooted_path es"
  by (induction es rule: join_slash.induct) (simp_all add: rooted_path_def)

lemma Clean_rooted:
  assumes "list_all proper es"
  shows "es \<noteq> [] \<Longrightarrow> Clean (rooted_path es) = rooted_path es"
    and "Clean (rooted_path es @ ''/'') = (if es = [] then ''/'' else rooted_path es)"
proof -
  have h: "hd (rooted_path es @ ''/'') = CHR ''/''" "es \<noteq> [] \<Longrightarrow> rooted_path es \<noteq> [] \<and> hd (rooted_path es) = CHR ''/''"
    by (cases es; simp add: rooted_path_def)+
  show "es \<noteq> [] \<Longrightarrow> Clean (rooted_path es) = rooted_path es"
    using h(2) split_rooted(1) [OF assms] clean_proper [OF assms] join_rooted [of es] by (simp add: Clean_def)
  show "Clean (rooted_path es @ ''/'') = (if es = [] then ''/'' else rooted_path es)"
    using h(1) split_rooted(2) [OF assms] clean_proper [OF assms] join_rooted [of es]
    by (simp add: Clean_def)
qed

text \<open>The directory of a file, and a file of a directory.\<close>

lemma Dir_file:
  assumes "list_all proper ds" and "CHR ''/'' \<notin> set base"
  shows "Dir (rooted_path (ds @ [base])) = (if ds = [] then ''/'' else rooted_path ds)"
proof -
  have "dropWhile (\<lambda>c. c \<noteq> CHR ''/'') (rev base @ CHR ''/'' # rev (rooted_path ds)) = CHR ''/'' # rev (rooted_path ds)"
    using assms(2) by (subst dropWhile_append2) auto
  then show ?thesis
    using Clean_rooted(2) [OF assms(1)] by (simp add: Dir_def rooted_path_def)
qed

lemma Join_file:
  assumes "list_all proper ds" and "proper f"
  shows "Join [if ds = [] then ''/'' else rooted_path ds, f] = rooted_path (ds @ [f])"
proof (cases "ds = []")
  case True
  have "split_slash (CHR ''/'' # CHR ''/'' # f) = [[], [], f]"
    using assms(2) split_last [of f] by (simp add: proper_def)
  then show ?thesis using True assms(2) by (simp add: Join_def Clean_def rooted_path_def proper_def)
next
  case False
  have "rooted_path ds @ CHR ''/'' # f = rooted_path (ds @ [f])" by (simp add: rooted_path_def)
  moreover have "rooted_path ds \<noteq> []" using False by (cases ds) (simp_all add: rooted_path_def)
  ultimately show ?thesis
    using False Clean_rooted(1) [of "ds @ [f]"] assms by (simp add: Join_def)
qed

end
