(* ===== verification/Validation_PCR.thy ===== *)
theory Validation_PCR
  imports Validation_Common Go_Path
begin

section \<open>validation/pcr.go: where the measurements are\<close>

text \<open>
  The measurements file lies beside the package's source.  The file name that
  \<open>runtime.Caller\<close> reports for pcr.go is an argument; \<open>LoadPCRsFromFile\<close> is openauction's.
\<close>

definition DefaultPCRConfigPath :: "string \<Rightarrow> string" where
  "DefaultPCRConfigPath filename = Join [Dir filename, ''pcrs.json'']"

text \<open>For a source file with a rooted path, it is the file pcrs.json of the same directory.\<close>

lemma DefaultPCRConfigPath_beside:
  assumes "list_all proper ds" and "CHR ''/'' \<notin> set base"
  shows "DefaultPCRConfigPath (rooted_path (ds @ [base])) = rooted_path (ds @ [''pcrs.json''])"
proof -
  have "proper ''pcrs.json''" by code_simp
  then show ?thesis using Join_file [OF assms(1)] by (simp add: DefaultPCRConfigPath_def Dir_file [OF assms])
qed

end
