(* ===== verification/Validation_CLI.thy ===== *)
theory Validation_CLI
  imports Validation_Arbitration Validation_PCR
begin

section \<open>validation/cmd/validate-arbitration/main.go: the command\<close>









subsection \<open>The exit codes\<close>


end
