(* ===== verification/Validation_Key.thy ===== *)
theory Validation_Key
  imports Validation_Common Go_Strings
begin

section \<open>validation/key.go: validating a key attestation\<close>

text \<open>
  The platform checks and the binding of the caller's public key to the attested one.
\<close>

record KeyValidationResult = BaseValidationResult +
  PublicKeyMatch :: bool

definition Key_IsValid :: "KeyValidationResult \<Rightarrow> bool" where
  "Key_IsValid r \<longleftrightarrow> Base_IsValid r \<and> PublicKeyMatch r"

definition parseKeyAttestation :: "vlibs \<Rightarrow> AttestationCOSEBase64 \<Rightarrow> KeyAttestationDoc result" where
  "parseKeyAttestation V coseB64 =
     bind_result (parse_doc V coseB64) (\<lambda>(attestationDoc, userDataBytes).
     if 0 < length userDataBytes then
       bind_result (wrap_err ''parse user data''
           (json_Unmarshal (dec_KeyUserData (vl_tags V)) userDataBytes zero_KeyUserData)) (\<lambda>ud.
       Inr \<lparr>kdDoc = attestationDoc, kdUserData = Some ud\<rparr>)
     else Inr \<lparr>kdDoc = attestationDoc, kdUserData = None\<rparr>)"

definition key_with_base :: "BaseValidationResult \<Rightarrow> KeyValidationResult" where
  "key_with_base b =
     \<lparr>PCRsValid = PCRsValid b, CertificateValid = CertificateValid b, SignatureValid = SignatureValid b,
      ValidationDetails = ValidationDetails b, PublicKeyMatch = False\<rparr>"

definition check_key ::
  "string \<Rightarrow> ArbiterKeyAttestationUserData option \<Rightarrow> KeyValidationResult \<Rightarrow> KeyValidationResult" where
  "check_key expectedPublicKey ud result =
     (case ud of
        None \<Rightarrow> detail ''Public key missing from attestation'' result
      | Some ud \<Rightarrow>
          if PublicKey (akKey ud) = [] then detail ''Public key missing from attestation'' result
          else if TrimSpace expectedPublicKey = TrimSpace (PublicKey (akKey ud))
          then detail ''Public key matches attestation'' (result\<lparr>PublicKeyMatch := True\<rparr>)
          else detail ''Public key mismatch: provided key does not match attested key'' result)"

definition ValidateKeyAttestation ::
  "vlibs \<Rightarrow> AttestationCOSEBase64 \<Rightarrow> string \<Rightarrow> PCRSet list \<Rightarrow> CertPool option \<Rightarrow> KeyValidationResult result" where
  "ValidateKeyAttestation V coseB64 expectedPublicKey knownPCRs roots =
     (if length knownPCRs = 0 then Inl (Errorf ''no PCR sets configured'')
      else
        bind_result (validateCommonAttestation V coseB64 knownPCRs roots) (\<lambda>base.
        bind_result (wrap_err ''parse key attestation'' (parseKeyAttestation V coseB64)) (\<lambda>keyDoc.
        Inr (check_key expectedPublicKey (kdUserData keyDoc) (key_with_base base)))))"

subsection \<open>What a valid result means\<close>

definition key_attested :: "string \<Rightarrow> ArbiterKeyAttestationUserData option \<Rightarrow> bool" where
  "key_attested k ud \<longleftrightarrow>
     (case ud of None \<Rightarrow> False
      | Some ud \<Rightarrow> PublicKey (akKey ud) \<noteq> [] \<and> TrimSpace k = TrimSpace (PublicKey (akKey ud)))"

lemma check_key_valid:
  "Key_IsValid (check_key k ud (key_with_base b)) \<longleftrightarrow> Base_IsValid b \<and> key_attested k ud"
  by (auto simp: Key_IsValid_def Base_IsValid_def check_key_def key_attested_def key_with_base_def detail_def
    split: option.split)

lemma parseKey_Inr_iff:
  "parseKeyAttestation V cose = Inr d \<longleftrightarrow>
     (\<exists>doc s. parse_doc V cose = Inr (doc, s) \<and>
        (if s = [] then d = \<lparr>kdDoc = doc, kdUserData = None\<rparr>
         else \<exists>ud. json_Unmarshal (dec_KeyUserData (vl_tags V)) s zero_KeyUserData = Inr ud
                \<and> d = \<lparr>kdDoc = doc, kdUserData = Some ud\<rparr>))"
  by (auto simp: parseKeyAttestation_def result_simps split: prod.splits)

lemma base_IsValid_platform:
  assumes "parse_doc V cose = Inr (doc, s)" and "validateCommonAttestation V cose known roots = Inr b"
  shows "Base_IsValid b \<longleftrightarrow> platform_ok V cose doc known roots"
proof -
  obtain r where "validateCommonAttestation V cose known roots = Inr r"
    "PCRsValid r = fst (ValidatePCRs (vl_oa V) (docPCRs doc) known)"
    "CertificateValid r = chain_ok V doc roots"
    "SignatureValid r = (VerifyCOSESignature (vl_oa V) cose (Certificate doc) = None)"
    using common_checks [OF assms(1)] by blast
  then show ?thesis using assms(2) by (auto simp: Base_IsValid_def platform_ok_def)
qed

definition key_spec :: "vlibs \<Rightarrow> AttestationCOSEBase64 \<Rightarrow> string \<Rightarrow> PCRSet list \<Rightarrow> CertPool option \<Rightarrow> bool" where
  "key_spec V cose k known roots \<longleftrightarrow>
     known \<noteq> [] \<and>
     (\<exists>doc s ud. parse_doc V cose = Inr (doc, s) \<and> s \<noteq> []
        \<and> json_Unmarshal (dec_KeyUserData (vl_tags V)) s zero_KeyUserData = Inr ud
        \<and> platform_ok V cose doc known roots
        \<and> PublicKey (akKey ud) \<noteq> [] \<and> TrimSpace k = TrimSpace (PublicKey (akKey ud)))"

lemma key_valid_iff:
  "(\<exists>r. ValidateKeyAttestation V cose k known roots = Inr r \<and> Key_IsValid r) \<longleftrightarrow> key_spec V cose k known roots"
proof
  assume "\<exists>r. ValidateKeyAttestation V cose k known roots = Inr r \<and> Key_IsValid r"
  then obtain b d where "known \<noteq> []" and b: "validateCommonAttestation V cose known roots = Inr b"
    and d: "parseKeyAttestation V cose = Inr d" and v: "Base_IsValid b \<and> key_attested k (kdUserData d)"
    by (auto simp: ValidateKeyAttestation_def result_simps check_key_valid split: if_splits)
  moreover from d v obtain doc s ud where "parse_doc V cose = Inr (doc, s)" "s \<noteq> []"
    "json_Unmarshal (dec_KeyUserData (vl_tags V)) s zero_KeyUserData = Inr ud" "kdUserData d = Some ud"
    by (auto simp: parseKey_Inr_iff key_attested_def split: if_splits)
  ultimately show "key_spec V cose k known roots"
    using base_IsValid_platform [OF _ b] by (auto simp: key_spec_def key_attested_def)
next
  assume "key_spec V cose k known roots"
  then obtain doc s ud where k: "known \<noteq> []" and s: "parse_doc V cose = Inr (doc, s)" "s \<noteq> []"
    "json_Unmarshal (dec_KeyUserData (vl_tags V)) s zero_KeyUserData = Inr ud"
    and p: "platform_ok V cose doc known roots" and m: "key_attested k (Some ud)"
    unfolding key_spec_def key_attested_def by auto
  obtain b where b: "validateCommonAttestation V cose known roots = Inr b"
    using common_checks [OF s(1)] by blast
  have "parseKeyAttestation V cose = Inr \<lparr>kdDoc = doc, kdUserData = Some ud\<rparr>"
    using s by (simp add: parseKey_Inr_iff)
  then show "\<exists>r. ValidateKeyAttestation V cose k known roots = Inr r \<and> Key_IsValid r"
    using k b p m base_IsValid_platform [OF s(1) b] by (simp add: ValidateKeyAttestation_def check_key_valid)
qed

text \<open>
  C25: the key validator refines its specification: a key is reported valid exactly when there are
  trusted measurements, the envelope's user data decodes, the platform checks pass, and the attested
  public key is present and equal to the caller's up to white space at the ends.
\<close>

theorem ValidateKeyAttestation_refines:
  "(\<exists>r. ValidateKeyAttestation V cose k known roots = Inr r \<and> Key_IsValid r) \<longleftrightarrow> key_spec V cose k known roots"
  by (rule key_valid_iff)

end
