(* ===== verification/Spec2Isabelle.thy ===== *)
theory Spec2Isabelle
  imports Server_System Server_Deadline Validation_CLI Validation_Key
begin

text \<open>
  Verification of openarbiter, an arbiter of sealed bids that runs in an AWS Nitro enclave.

  The program.  A bidder seals its price (core/seal.go) under the public key that the enclave
  publishes with an attestation; the host sends the bids to the enclave's server
  (cmd/enclave-server/main.go), whose handlers (enclave/handlers.go) open the prices
  (enclave/crypto.go, enclave/arbiter.go), rank the bids (core/arbiter.go) and have the Nitro
  security module sign a document (enclave/attestation.go) with a hash per bid
  (core/hash.go), the winner and the excluded bids; a bidder checks that document with the
  validator (validation/).  The wire contract is enclaveapi/types.go.

  Theories and sources, in the order of their imports:
  \<^item> Prelude: bytes, errors, calls that may fail, separators, the codec interface;
  \<^item> Go_Float, Go_Strconv, Go_Strings, Go_Path, Go_Utf8, Go_Base64, Go_Sha256, Go_Ftoa, Go_Time,
    Go_Json, Go_JsonStruct, Go_JsonLine: what the source uses of Go's language and standard library,
    executable (binary64 arithmetic, decimal conversion, paths, UTF-8, base64, SHA-256, shortest
    float printing, RFC 3339, encoding/json);
  \<^item> Go_Runtime, Go_Libs: the outside world as a state that calls take and return (entropy,
    clock, shuffles), panics, and the packages that are parameters;
  \<^item> Core_Units (core/units.go), Core_Hash (core/hash.go), Core_Arbiter and Core_Ranking
    (core/arbiter.go), Core_Seal (core/seal.go, core/excluded.go);
  \<^item> Api_Types and Api_Codec (enclaveapi/types.go): the records, their JSON, and that it reads
    back;
  \<^item> Enclave_Crypto (enclave/crypto.go), Enclave_Arbiter (enclave/arbiter.go),
    Enclave_Attestation (enclave/keymanager.go, enclave/attestation.go), Enclave_Handlers
    (enclave/handlers.go), Enclave_SysInfo (enclave/sysinfo.go);
  \<^item> Server_Main (configuration, dispatch, connections), Server_Pool (accept loop and worker
    pool), Server_Deadline (the same connections and slots against the clock, with calls that
    block), Server_Conversation and Server_Answers (a request and its answer on the wire),
    Server_System (the pool with the calls on its connections), all of
    cmd/enclave-server/main.go;
  \<^item> Validation_Common (validation/types.go, pcr.go, cert.go, attestation.go),
    Validation_PCR (the default path of pcr.go),
    Validation_Arbitration (validation/arbitration.go), Validation_Key (validation/key.go),
    Validation_CLI (validation/cmd/validate-arbitration/main.go);
  \<^item> this theory: enclave and validator together.

  How the model reads.  Every function of the source is a definition of the same name; a
  struct is a record, a nil pointer \<open>None\<close>, an error \<open>Inl\<close>, a panic \<open>None\<close>; effectful
  functions take a \<open>world\<close> and return it, so the order of reads of entropy and clock is the
  source's.  A loop is a recursive function.  The accept loop and its goroutines are an
  inductive step relation, because they interleave: the end of a worker's service is one step,
  in any world that the environment allows, since handlers that run at the same time share the
  host's entropy and clock.  That step stands for all calls on the connection and cannot block,
  so the pool and the system say nothing about time.  Server_Deadline does: there the calls run
  against the clock, reads and writes wait for the peer or a deadline (for ever when there is
  none), and the slots of the pool come back when the services end.  Integers are 64-bit words, floats
  binary64 data with every rounding written out.

  What the lemmas show.  Ranking: a permutation in descending order, uniform among ties,
  never a panic.  Units: the error of the float conversions.  Sealing: what is sealed opens
  to the price, and only an intact payload opens.  Formats: JSON, base64, decimal, floats
  and times read back.  Handlers: they answer, account for every wire bid, and attest what
  they answer.  A payload that opens counts as its last price, as zero when it has none.
  Server: slots, one close per connection, one line from the handler of its type for every
  request whose envelope can be read; the deadlines end every service and free its slot,
  whatever the peer does; the server with its calls refines the pool exactly, and answers every
  request it does not turn away.  Validator: its verdict is
  its specification, and it accepts what the enclave attested and nothing else, up to a
  SHA-256 collision that the statement exhibits.

  Interfaces are locales, interpreted on the model: \<open>codec\<close>, \<open>json_codec\<close> and \<open>json_struct\<close>
  (formats), \<open>shuffler\<close> and \<open>stable_sorter\<close> (ranking), \<open>resolution\<close> (arbiter),
  \<open>report_check\<close> (the validator's checks).

  Bounds and fuel.  No definition uses fuel: the loops of the source run over their input,
  and the remaining recursions (digits, years, square and cube roots) have measures.
  \<open>encoding/json\<close> refuses nesting beyond 10000, as \<open>max_depth\<close>; the formats here nest at
  most four deep.  The price bound of the unit lemmas, a CPM up to \<open>10^15\<close>, keeps the product
  inside an int64.

  Parameters.  RSA-OAEP, AES-GCM, key generation, PKIX, PEM and X.509, the uuid package, the
  NSM and openauction's envelope, verifiers and struct tags are functions the definitions
  take.  The hypotheses on them are what they document: decryption undoes encryption with
  the other half of a key pair (\<open>key_pair\<close>, \<open>keygen_correct\<close>, \<open>gcm_correct\<close>), formats read back
  (\<open>pkix_correct\<close>, \<open>uuid_ok\<close>, \<open>cose_ok\<close>, \<open>tags_ok\<close>), the attester's envelope carries the user data
  it was given (\<open>attests\<close>), and encodings are ASCII (\<open>pem_ascii\<close>, \<open>cose_ascii\<close>).

  Simplifications.  The attester is a function of its options, asked once per handler call.  A
  nil slice and an empty one are the same list, so the host's encoding of a request without
  bids prints [] where Go prints null for a nil slice (both are read alike).

  Not modelled.  Log lines; the re-exports of openauction's types that no code uses; parsing of the
  command line; the contents of the certificate pool beyond its order; the wording of the
  errors that encoding/json, crypto and x509 return.
\<close>

section \<open>Enclave and validator together\<close>

text \<open>
  A validator and an enclave speak of the same packages: the uuid formats, the envelope and
  the tags of openauction.
\<close>

definition same_packages :: "libs \<Rightarrow> vlibs \<Rightarrow> bool" where
  "same_packages L V \<longleftrightarrow>
     vl_uuid V = lib_uuid L \<and> vl_cose V = lib_cose L \<and> vl_tags V = lib_tags L
     \<and> uuid_ok (lib_uuid L) \<and> cose_ok (lib_cose L) \<and> tags_ok (lib_tags L)"

text \<open>A request as the wire delivers it: the strings that the attestation repeats are valid UTF-8.\<close>

definition utf8_request :: "EnclaveArbitrationRequest \<Rightarrow> bool" where
  "utf8_request req \<longleftrightarrow>
     ValidString (reqRequestID req) \<and> list_all (\<lambda>wb. ValidString (wbID wb)) (reqBids req)"

text \<open>
  The setting: an arbitration answered successfully, whose attester produces envelopes that
  parse to the document doc and the user data they were made with.
\<close>

definition attested_arbitration ::
  "libs \<Rightarrow> vlibs \<Rightarrow> EnclaveAttester \<Rightarrow> KeyManager option \<Rightarrow> EnclaveArbitrationRequest \<Rightarrow> world
     \<Rightarrow> AttestationDoc \<Rightarrow> EnclaveArbitrationResponse \<Rightarrow> bool" where
  "attested_arbitration L V att km req w doc r \<longleftrightarrow>
     same_packages L V \<and> attests (lib_cose L) att doc \<and> utf8_request req
     \<and> (\<forall>i. time_ok (wall (clock w i)))
     \<and> (\<exists>w'. HandleArbitrationRequest L (Some att) km req w = (Some r, w')) \<and> respSuccess r"

lemma attested_arbitrationE:
  assumes "attested_arbitration L V att km req w doc r"
  obtains cose s ud where "respAttestation r = EncodeBase64 (vl_cose V) cose"
    "parse_doc V (EncodeBase64 (vl_cose V) cose) = Inr (doc, s)" "s \<noteq> []"
    "json_Unmarshal dec_UserData s zero_UserData = Inr ud"
    "udBidHashes ud = map (\<lambda>b. ComputeBidHash (rbID b) (rbRevenue b) (udBidHashNonce ud)) (respBids r)"
    "udWinner ud = (case respBids r of [] \<Rightarrow> None | b # _ \<Rightarrow> Some \<lparr>wsID = rbID b, wsRevenue = rbRevenue b\<rparr>)"
    "udExcludedBids ud = respExcludedBids r"
    "udRequestHash ud = ComputeRequestHash (reqRequestID req) (udRequestNonce ud)"
    "udBidHashNonce ud \<noteq> []" "udRequestNonce ud \<noteq> []"
proof -
  have p: "vl_cose V = lib_cose L" "uuid_ok (lib_uuid L)" "cose_ok (lib_cose L)"
    and q: "ValidString (reqRequestID req)" "list_all (\<lambda>wb. ValidString (wbID wb)) (reqBids req)"
    and c: "\<And>i. time_ok (wall (clock w i))" and att: "attests (lib_cose L) att doc" and s: "respSuccess r"
    using assms by (auto simp: attested_arbitration_def same_packages_def utf8_request_def)
  obtain w' where h: "HandleArbitrationRequest L (Some att) km req w = (Some r, w')"
    using assms by (auto simp: attested_arbitration_def)
  obtain att' n nonce cose ud where a: "Some att = Some att'" "att' \<lparr>optUserData = n, optNonce = nonce\<rparr> = Inr cose"
    and e: "respAttestation r = EncodeBase64 (lib_cose L) cose"
    and u: "n \<noteq> []" "json_Unmarshal dec_UserData n zero_UserData = Inr ud"
      "udBidHashes ud = map (\<lambda>b. ComputeBidHash (rbID b) (rbRevenue b) (udBidHashNonce ud)) (respBids r)"
      "udWinner ud = (case respBids r of [] \<Rightarrow> None | b # _ \<Rightarrow> Some \<lparr>wsID = rbID b, wsRevenue = rbRevenue b\<rparr>)"
      "udExcludedBids ud = respExcludedBids r"
      "udRequestHash ud = ComputeRequestHash (reqRequestID req) (udRequestNonce ud)"
      "length (udBidHashNonce ud) = 64" "length (udRequestNonce ud) = 64"
    using attested_user_data [OF p(2) q c h s] by blast
  have "ParseAttestationDoc (lib_cose L) cose = Inr (doc, n)"
    using attestsD [OF att, of "\<lparr>optUserData = n, optNonce = nonce\<rparr>" cose] a by simp
  then have "parse_doc V (EncodeBase64 (vl_cose V) cose) = Inr (doc, n)"
    using cose_okD(1) [OF p(3)] by (simp add: parse_doc_def p(1))
  moreover have "udBidHashNonce ud \<noteq> []" "udRequestNonce ud \<noteq> []" using u(7,8) by auto
  ultimately show ?thesis using that e u p(1) by simp
qed

text \<open>The envelope of the response, gzipped, is what the validator decompresses.\<close>

lemma response_decompresses:
  assumes "attested_arbitration L V att km req w doc r"
    and "Base64_CompressGzip (vl_cose V) (respAttestation r) = Inr g"
    and "respAttestation r = EncodeBase64 (vl_cose V) cose"
  shows "Decompress (vl_cose V) g = Inr cose"
  using assms cose_okD(3) [of "vl_cose V"] by (auto simp: attested_arbitration_def same_packages_def)

subsection \<open>The bids of a response\<close>

lemma listed_bid:
  assumes "HandleArbitrationRequest L attester (Some km) req w = (Some r, w')" "respSuccess r"
    and "wb \<in> set (reqBids req)" "parses (lib_uuid L) wb"
  shows "resolved_bid_of (lib_uuid L)
      (resolve_bid (lib_print L) (lib_oor L) (lib_crypto L) \<lparr>arbPriv = PrivateKey km\<rparr> (core_bid (lib_uuid L) wb))
    \<in> set (respBids r)"
proof (rule handler_success [OF assms(1,2)])
  fix k resp
  assume k: "Some km = Some k" and rk: "request_ranking L k req resp"
    and rb: "respBids r = map (resolved_bid_of (lib_uuid L)) (arBids resp)"
  have "core_bid (lib_uuid L) wb \<in> set (map (core_bid (lib_uuid L)) (filter (parses (lib_uuid L)) (reqBids req)))"
    using assms(3,4) by auto
  from arbiter.ranked_all_bids [OF rk [unfolded request_ranking_def] this] k
  show ?thesis by (simp add: rb)
qed

lemma ParsePublicKey_PEM:
  assumes "pkix_correct C" and "publicKeyToPEM C (Some pub) = Some (Inr s)"
  shows "ParsePublicKey C s = Inr pub"
  using assms by (auto simp: publicKeyToPEM_def ParsePublicKey_def pkix_correct_def result_simps)

lemma ex_attested_arbitration:
  obtains r w' where "attested_arbitration ex_libs ex_vlibs ex_attester (Some ex_km) ex_req ex_world ex_doc r"
    "HandleArbitrationRequest ex_libs (Some ex_attester) (Some ex_km) ex_req ex_world = (Some r, w')"
    "\<exists>b \<in> set (respBids r). rbID b = ''7''"
proof (rule ex_handler)
  fix r w'
  assume h: "HandleArbitrationRequest ex_libs (Some ex_attester) (Some ex_km) ex_req ex_world = (Some r, w')" "respSuccess r"
  have u: "utf8_request ex_req" unfolding utf8_request_def by (intro conjI; code_simp)
  have s: "same_packages ex_libs ex_vlibs"
    using ex_uuid_ok ex_cose_ok ex_tags_ok by (simp add: same_packages_def ex_libs_def ex_vlibs_def)
  have a: "attested_arbitration ex_libs ex_vlibs ex_attester (Some ex_km) ex_req ex_world ex_doc r"
    using h u s ex_attests ex_sound_world by (auto simp: attested_arbitration_def sound_world_def ex_libs_def)
  have "hd (reqBids ex_req) \<in> set (reqBids ex_req)" "parses (lib_uuid ex_libs) (hd (reqBids ex_req))"
    by (simp add: ex_req_def) code_simp
  from listed_bid [OF h this]
  have "\<exists>b \<in> set (respBids r). rbID b = uuid_String ex_uuid (projr (uuid_Parse ex_uuid ''7''))"
    by (rule bexI [rotated])
      (simp add: resolved_bid_of_def arbiter.resolve_bid core_bid_def ex_req_def ex_libs_def)
  moreover have "uuid_String ex_uuid (projr (uuid_Parse ex_uuid ''7'')) = ''7''" by code_simp
  ultimately show ?thesis using that [OF a h(1)] by simp
qed

lemma ex_gzip: "Base64_CompressGzip (vl_cose ex_vlibs) s = Inr s"
  by (simp add: ex_vlibs_def ex_cose_def)

lemma ranked_bid_accepted:
  assumes "attested_arbitration L V att km req w doc r"
    and "Base64_CompressGzip (vl_cose V) (respAttestation r) = Inr g"
    and "platform_ok V (respAttestation r) doc known roots" and "known \<noteq> []"
    and "b \<in> set (respBids r)" and "uuid_Parse (vl_uuid V) i = Inr u" and "rbID b = uuid_String (vl_uuid V) u"
  shows "\<exists>res. ValidateArbitrationAttestation V (Some
      \<lparr>AttestationCOSEGzip_in = g, KnownPCRs = known, RequestID = reqRequestID req, BidID = i,
       BidRevenue = rbRevenue b, Expectation = ExpectIncluded, ExpectedExclusionReason = [],
       IsWinner = (rbID (hd (respBids r)) = rbID b), Roots = roots\<rparr>) = Inr res \<and> Arbitration_IsValid res"
  using assms(1)
proof (rule attested_arbitrationE)
  fix cose s ud
  assume e: "respAttestation r = EncodeBase64 (vl_cose V) cose"
    and d: "parse_doc V (EncodeBase64 (vl_cose V) cose) = Inr (doc, s)" "s \<noteq> []"
      "json_Unmarshal dec_UserData s zero_UserData = Inr ud"
    and h: "udBidHashes ud = map (\<lambda>b. ComputeBidHash (rbID b) (rbRevenue b) (udBidHashNonce ud)) (respBids r)"
    and w: "udWinner ud = (case respBids r of [] \<Rightarrow> None | b # _ \<Rightarrow> Some \<lparr>wsID = rbID b, wsRevenue = rbRevenue b\<rparr>)"
    and q: "udRequestHash ud = ComputeRequestHash (reqRequestID req) (udRequestNonce ud)"
    and n: "udBidHashNonce ud \<noteq> []" "udRequestNonce ud \<noteq> []"
  have c: "canonicalBidID V i = rbID b" using assms(6,7) by (simp add: canonicalBidID_def)
  obtain b0 bs where bs: "respBids r = b0 # bs" using assms(5) by (cases "respBids r") auto
  have dc: "Decompress (vl_cose V) g = Inr cose" by (rule response_decompresses [OF assms(1,2) e])
  show ?thesis
    using assms(3,4,5) e d h q n w dc
    by (intro spec_valid)
      (auto simp: arbitration_spec_def user_data_ok_def request_attested_def bid_attested_def actuallyWon_def
        ExpectIncluded_def ExpectExcluded_def c bs)
qed

text \<open>
  C1: completeness: a bidder whose bid was ranked convinces the validator.  For every bid listed in a
  successful response, with its resolved revenue, any spelling of its id, the request's id and
  the right expectation about winning, the validator reports a valid result, provided the
  platform checks pass.
\<close>

theorem ranked_bid_validates:
  assumes "attested_arbitration L V att km req w doc r"
    and "Base64_CompressGzip (vl_cose V) (respAttestation r) = Inr g"
    and "platform_ok V (respAttestation r) doc known roots" and "known \<noteq> []"
    and "b \<in> set (respBids r)" and "uuid_Parse (vl_uuid V) i = Inr u" and "rbID b = uuid_String (vl_uuid V) u"
  shows "\<exists>res. ValidateArbitrationAttestation V (Some
      \<lparr>AttestationCOSEGzip_in = g, KnownPCRs = known, RequestID = reqRequestID req, BidID = i,
       BidRevenue = rbRevenue b, Expectation = ExpectIncluded, ExpectedExclusionReason = [],
       IsWinner = (rbID (hd (respBids r)) = rbID b), Roots = roots\<rparr>) = Inr res \<and> Arbitration_IsValid res"
  by (rule ranked_bid_accepted [OF assms])

theorem ranked_bid_validates_witness:
  "\<exists>(r :: EnclaveArbitrationResponse) b. rbID b = ''7'' \<and> b \<in> set (respBids r)
    \<and> (\<exists>res. ValidateArbitrationAttestation ex_vlibs (Some
      \<lparr>AttestationCOSEGzip_in = respAttestation r, KnownPCRs = ex_pcrs, RequestID = reqRequestID ex_req, BidID = ''007'',
       BidRevenue = rbRevenue b, Expectation = ExpectIncluded, ExpectedExclusionReason = [],
       IsWinner = (rbID (hd (respBids r)) = rbID b), Roots = None\<rparr>) = Inr res \<and> Arbitration_IsValid res)"
proof (rule ex_attested_arbitration)
  fix r w'
  assume a: "attested_arbitration ex_libs ex_vlibs ex_attester (Some ex_km) ex_req ex_world ex_doc r"
    and "\<exists>b \<in> set (respBids r). rbID b = ''7''"
  then obtain b where b: "b \<in> set (respBids r)" "rbID b = ''7''" by blast
  have p: "uuid_Parse (vl_uuid ex_vlibs) ''007'' = Inr 7" by code_simp
  have s: "uuid_String (vl_uuid ex_vlibs) 7 = ''7''" by code_simp
  have "ex_pcrs \<noteq> []" by (simp add: ex_pcrs_def)
  from ranked_bid_validates [OF a ex_gzip ex_platform_ok this b(1) p] b s show ?thesis
    by (intro exI [of _ r] exI [of _ b]) simp
qed

text \<open>
  C2: soundness: what the validator accepts about an attested arbitration is what happened.  If it
  reports a valid result on the included path, then the request id is the one arbitrated, a
  bid with the caller's id and revenue was ranked, and the caller's belief about winning is
  right; the only way out of the first two is a SHA-256 collision between the caller's text and
  the enclave's, both completed with the nonce that the attestation holds.
\<close>

theorem validated_bid_was_ranked:
  assumes "attested_arbitration L V att km req w doc r"
    and "Base64_CompressGzip (vl_cose V) (respAttestation r) = Inr (AttestationCOSEGzip_in input)"
    and "ValidateArbitrationAttestation V (Some input) = Inr res" and "Arbitration_IsValid res"
    and "Expectation input \<noteq> ExpectExcluded"
  shows "\<exists>s ud. parse_doc V (respAttestation r) = Inr (doc, s) \<and> json_Unmarshal dec_UserData s zero_UserData = Inr ud
    \<and> (RequestID input = reqRequestID req
       \<or> sha256_collision (request_preimage (RequestID input) (udRequestNonce ud))
           (request_preimage (reqRequestID req) (udRequestNonce ud)))
    \<and> (\<exists>b \<in> set (respBids r).
         (rbID b = canonicalBidID V (BidID input) \<and> rbRevenue b = BidRevenue input)
         \<or> sha256_collision (bid_preimage (canonicalBidID V (BidID input)) (BidRevenue input) (udBidHashNonce ud))
             (bid_preimage (rbID b) (rbRevenue b) (udBidHashNonce ud)))
    \<and> (IsWinner input \<longleftrightarrow> rbID (hd (respBids r)) = canonicalBidID V (BidID input))"
  using assms(1)
proof (rule attested_arbitrationE)
  fix cose s ud
  assume e: "respAttestation r = EncodeBase64 (vl_cose V) cose"
    and d: "parse_doc V (EncodeBase64 (vl_cose V) cose) = Inr (doc, s)"
      "json_Unmarshal dec_UserData s zero_UserData = Inr ud"
    and h: "udBidHashes ud = map (\<lambda>b. ComputeBidHash (rbID b) (rbRevenue b) (udBidHashNonce ud)) (respBids r)"
    and w: "udWinner ud = (case respBids r of [] \<Rightarrow> None | b # _ \<Rightarrow> Some \<lparr>wsID = rbID b, wsRevenue = rbRevenue b\<rparr>)"
    and q: "udRequestHash ud = ComputeRequestHash (reqRequestID req) (udRequestNonce ud)"
  have dc: "Decompress (vl_cose V) (AttestationCOSEGzip_in input) = Inr cose"
    by (rule response_decompresses [OF assms(1,2) e])
  have "user_data_ok V input ud"
    using valid_spec [OF assms(3,4)] d dc unfolding arbitration_spec_def by auto
  then have u: "udRequestHash ud = ComputeRequestHash (RequestID input) (udRequestNonce ud)"
    "ComputeBidHash (canonicalBidID V (BidID input)) (BidRevenue input) (udBidHashNonce ud) \<in> set (udBidHashes ud)"
    "IsWinner input = actuallyWon V input ud"
    using assms(5) by (auto simp: user_data_ok_def request_attested_def bid_attested_def)
  obtain b where b: "b \<in> set (respBids r)" "ComputeBidHash (canonicalBidID V (BidID input)) (BidRevenue input) (udBidHashNonce ud)
      = ComputeBidHash (rbID b) (rbRevenue b) (udBidHashNonce ud)"
    using u(2) unfolding h by auto
  have "RequestID input = reqRequestID req
      \<or> sha256_collision (request_preimage (RequestID input) (udRequestNonce ud))
          (request_preimage (reqRequestID req) (udRequestNonce ud))"
    using ComputeRequestHash_same_nonce [of "RequestID input" "udRequestNonce ud" "reqRequestID req"] u(1) q by auto
  moreover note ComputeBidHash_same_nonce [OF b(2)]
  moreover have "IsWinner input \<longleftrightarrow> rbID (hd (respBids r)) = canonicalBidID V (BidID input)"
    using u(3) b(1) by (auto simp: actuallyWon_def w split: list.splits)
  ultimately show ?thesis using b(1) d unfolding e by fastforce
qed

theorem validated_bid_was_ranked_witness:
  "\<exists>(r :: EnclaveArbitrationResponse) res (b :: ResolvedBid) (ud :: ArbitrationAttestationUserData).
    ValidateArbitrationAttestation ex_vlibs (Some
      \<lparr>AttestationCOSEGzip_in = respAttestation r, KnownPCRs = ex_pcrs, RequestID = reqRequestID ex_req, BidID = ''007'',
       BidRevenue = rbRevenue b, Expectation = ExpectIncluded, ExpectedExclusionReason = [],
       IsWinner = (rbID (hd (respBids r)) = rbID b), Roots = None\<rparr>) = Inr res \<and> Arbitration_IsValid res
    \<and> (\<exists>b' \<in> set (respBids r). (rbID b' = ''7'' \<and> rbRevenue b' = rbRevenue b)
         \<or> sha256_collision (bid_preimage ''7'' (rbRevenue b) (udBidHashNonce ud))
             (bid_preimage (rbID b') (rbRevenue b') (udBidHashNonce ud)))"
proof (rule ex_attested_arbitration)
  fix r w'
  assume a: "attested_arbitration ex_libs ex_vlibs ex_attester (Some ex_km) ex_req ex_world ex_doc r"
    and "\<exists>b \<in> set (respBids r). rbID b = ''7''"
  then obtain b where b: "b \<in> set (respBids r)" "rbID b = ''7''" by blast
  let ?in = "\<lparr>AttestationCOSEGzip_in = respAttestation r, KnownPCRs = ex_pcrs, RequestID = reqRequestID ex_req, BidID = ''007'',
       BidRevenue = rbRevenue b, Expectation = ExpectIncluded, ExpectedExclusionReason = [],
       IsWinner = (rbID (hd (respBids r)) = rbID b), Roots = None\<rparr>"
  have p: "uuid_Parse (vl_uuid ex_vlibs) ''007'' = Inr 7" by code_simp
  have s: "uuid_String (vl_uuid ex_vlibs) 7 = ''7''" by code_simp
  have k: "ex_pcrs \<noteq> []" by (simp add: ex_pcrs_def)
  obtain res where res: "ValidateArbitrationAttestation ex_vlibs (Some ?in) = Inr res" "Arbitration_IsValid res"
    using ranked_bid_accepted [OF a ex_gzip ex_platform_ok k b(1) p] b(2) s by auto
  have g: "Base64_CompressGzip (vl_cose ex_vlibs) (respAttestation r) = Inr (AttestationCOSEGzip_in ?in)"
    by (simp add: ex_gzip)
  have c: "canonicalBidID ex_vlibs (BidID ?in) = ''7''" by (simp add: canonicalBidID_def p s)
  define inp where "inp = ?in"
  note f = g [folded inp_def] res [folded inp_def] c [folded inp_def]
  have "Expectation inp \<noteq> ExpectExcluded" and r: "BidRevenue inp = rbRevenue b"
    by (simp_all add: inp_def ExpectIncluded_def ExpectExcluded_def)
  from validated_bid_was_ranked [OF a f(1-3) this(1)] obtain ud :: ArbitrationAttestationUserData where
    "\<exists>b' \<in> set (respBids r). (rbID b' = ''7'' \<and> rbRevenue b' = rbRevenue b)
       \<or> sha256_collision (bid_preimage ''7'' (rbRevenue b) (udBidHashNonce ud))
           (bid_preimage (rbID b') (rbRevenue b') (udBidHashNonce ud))"
    unfolding f(4) r by blast
  with res show ?thesis by (intro exI [of _ r] exI [of _ res] exI [of _ b] exI [of _ ud]) simp
qed

lemma find_malformed:
  "(case find (\<lambda>eb. exBidID eb = i) (map malformed ws) of None \<Rightarrow> False | Some eb \<Rightarrow> exReason eb = reason)
     \<longleftrightarrow> reason = ExclusionReasonMalformedBidID \<and> (\<exists>wb \<in> set ws. wbID wb = i)"
  by (induction ws) (auto simp: malformed_def)

text \<open>
  C4: an excluded bid can be shown to be excluded: for every wire bid whose id is not a uuid, the
  validator on the excluded path accepts that id with the malformed-id reason; and it accepts
  no id for any reason that the response does not list.
\<close>

theorem excluded_bid_validates:
  assumes "attested_arbitration L V att km req w doc r"
    and "Base64_CompressGzip (vl_cose V) (respAttestation r) = Inr g"
    and "platform_ok V (respAttestation r) doc known roots" and "known \<noteq> []"
  shows "(\<exists>res. ValidateArbitrationAttestation V (Some
      \<lparr>AttestationCOSEGzip_in = g, KnownPCRs = known, RequestID = reqRequestID req, BidID = i,
       BidRevenue = micros, Expectation = ExpectExcluded, ExpectedExclusionReason = reason,
       IsWinner = won, Roots = roots\<rparr>) = Inr res \<and> Arbitration_IsValid res)
    \<longleftrightarrow> reason = ''malformed bid id'' \<and> (\<exists>wb \<in> set (reqBids req). wbID wb = i \<and> \<not> is_ok (uuid_Parse (lib_uuid L) i))"
  using assms(1)
proof (rule attested_arbitrationE)
  fix cose s ud
  let ?in = "\<lparr>AttestationCOSEGzip_in = g, KnownPCRs = known, RequestID = reqRequestID req, BidID = i,
       BidRevenue = micros, Expectation = ExpectExcluded, ExpectedExclusionReason = reason,
       IsWinner = won, Roots = roots\<rparr>"
  assume e: "respAttestation r = EncodeBase64 (vl_cose V) cose"
    and d: "parse_doc V (EncodeBase64 (vl_cose V) cose) = Inr (doc, s)" "s \<noteq> []"
      "json_Unmarshal dec_UserData s zero_UserData = Inr ud"
    and x: "udExcludedBids ud = respExcludedBids r"
    and q: "udRequestHash ud = ComputeRequestHash (reqRequestID req) (udRequestNonce ud)" "udRequestNonce ud \<noteq> []"
  obtain w' where h: "HandleArbitrationRequest L (Some att) km req w = (Some r, w')" "respSuccess r"
    using assms(1) by (auto simp: attested_arbitration_def)
  have ex: "respExcludedBids r = map malformed (filter (\<lambda>wb. \<not> parses (lib_uuid L) wb) (reqBids req))"
    by (rule handler_success [OF h]) simp
  have dc: "Decompress (vl_cose V) g = Inr cose" by (rule response_decompresses [OF assms(1,2) e])
  have "arbitration_spec V ?in \<longleftrightarrow> excluded_as_expected ?in ud"
    using assms(3,4) e d q dc
    by (auto simp: arbitration_spec_def user_data_ok_def request_attested_def)
  also have "\<dots> \<longleftrightarrow> reason = ''malformed bid id'' \<and> (\<exists>wb \<in> set (reqBids req). wbID wb = i \<and> \<not> parses (lib_uuid L) wb)"
    by (auto simp: excluded_as_expected_def x ex find_malformed ExclusionReasonMalformedBidID_def)
  finally show ?thesis
    using valid_spec spec_valid by (auto simp: parses_def) 
qed

theorem excluded_bid_validates_witness:
  "\<exists>r :: EnclaveArbitrationResponse. \<exists>res. ValidateArbitrationAttestation ex_vlibs (Some
      \<lparr>AttestationCOSEGzip_in = respAttestation r, KnownPCRs = ex_pcrs, RequestID = reqRequestID ex_req, BidID = ''x'',
       BidRevenue = 0, Expectation = ExpectExcluded, ExpectedExclusionReason = ''malformed bid id'',
       IsWinner = False, Roots = None\<rparr>) = Inr res \<and> Arbitration_IsValid res"
proof (rule ex_attested_arbitration)
  fix r w'
  assume a: "attested_arbitration ex_libs ex_vlibs ex_attester (Some ex_km) ex_req ex_world ex_doc r"
  have k: "ex_pcrs \<noteq> []" by (simp add: ex_pcrs_def)
  have "\<exists>wb \<in> set (reqBids ex_req). wbID wb = ''x'' \<and> \<not> is_ok (uuid_Parse (lib_uuid ex_libs) ''x'')" by code_simp
  then show ?thesis
    using excluded_bid_validates [OF a ex_gzip ex_platform_ok k, of "''x''" 0 "''malformed bid id''" False] by blast
qed

text \<open>
  C23: a published key attestation vouches for the key it came with, and for no other: the key validator
  accepts exactly the keys equal to the published PEM text up to white space at the ends.
\<close>

theorem key_response_validates:
  assumes "same_packages L V" and "pem_ascii (lib_crypto L)" and "pkix_correct (lib_crypto L)"
    and "attests (lib_cose L) att doc"
    and "HandleKeyRequest L (Some att) km w = (Some (Inr resp), w')"
    and "Decompress (vl_cose V) (kwaAttestation (krKey resp)) = Inr cose"
    and "platform_ok V (EncodeBase64 (vl_cose V) cose) doc known roots" and "known \<noteq> []"
  shows "(\<exists>res. ValidateKeyAttestation V (EncodeBase64 (vl_cose V) cose) k known roots = Inr res \<and> Key_IsValid res)
    \<longleftrightarrow> TrimSpace k = TrimSpace (kwaPublicKey (krKey resp))"
proof -
  have p: "vl_cose V = lib_cose L" "vl_tags V = lib_tags L" "uuid_ok (lib_uuid L)" "cose_ok (lib_cose L)" "tags_ok (lib_tags L)"
    using assms(1) by (auto simp: same_packages_def)
  obtain k' att' pub s nonce cose' where a: "Some att = Some att'"
    "publicKeyToPEM (lib_crypto L) (Some pub) = Some (Inr (kwaPublicKey (krKey resp)))"
    "att' \<lparr>optUserData = s, optNonce = nonce\<rparr> = Inr cose'"
    "CompressGzip (lib_cose L) cose' = Inr (kwaAttestation (krKey resp))" "s \<noteq> []"
    "json_Unmarshal (dec_KeyUserData (lib_tags L)) s zero_KeyUserData
        = Inr \<lparr>akKey = \<lparr>KeyAlgorithm = ''RSA-2048'', PublicKey = kwaPublicKey (krKey resp)\<rparr>,
               akAuctionToken = kwaAuctionToken (krKey resp)\<rparr>"
    using key_user_data [OF p(5,3) assms(2,5)] by blast
  have c: "cose' = cose" using cose_okD(2) [OF p(4) a(4)] assms(6) p(1) by simp
  have "ParseAttestationDoc (lib_cose L) cose = Inr (doc, s)"
    using attestsD [OF assms(4), of "\<lparr>optUserData = s, optNonce = nonce\<rparr>" cose'] a(1,3) c by simp
  then have d: "parse_doc V (EncodeBase64 (vl_cose V) cose) = Inr (doc, s)"
    using cose_okD(1) [OF p(4)] by (simp add: parse_doc_def p(1))
  have "kwaPublicKey (krKey resp) \<noteq> []"
    using a(2) assms(3) by (auto simp: publicKeyToPEM_def pkix_correct_def result_simps)
  then have "key_spec V (EncodeBase64 (vl_cose V) cose) k known roots
      \<longleftrightarrow> TrimSpace k = TrimSpace (kwaPublicKey (krKey resp))"
    using d a(5,6) assms(7,8) by (auto simp: key_spec_def p(2))
  then show ?thesis using key_valid_iff by simp
qed

theorem key_response_validates_witness:
  "\<exists>(resp :: KeyResponse) cose. Decompress (vl_cose ex_vlibs) (kwaAttestation (krKey resp)) = Inr cose
    \<and> ((\<exists>res. ValidateKeyAttestation ex_vlibs (EncodeBase64 (vl_cose ex_vlibs) cose) (kwaPublicKey (krKey resp)) ex_pcrs None
           = Inr res \<and> Key_IsValid res)
       \<longleftrightarrow> TrimSpace (kwaPublicKey (krKey resp)) = TrimSpace (kwaPublicKey (krKey resp)))"
proof (rule ex_key_response)
  fix resp w'
  assume h: "HandleKeyRequest ex_libs (Some ex_attester) (Some ex_km) ex_world = (Some (Inr resp), w')"
  have s: "same_packages ex_libs ex_vlibs"
    using ex_uuid_ok ex_cose_ok ex_tags_ok by (simp add: same_packages_def ex_libs_def ex_vlibs_def)
  have l: "pem_ascii (lib_crypto ex_libs)" "pkix_correct (lib_crypto ex_libs)" "attests (lib_cose ex_libs) ex_attester ex_doc"
    using ex_pem_ascii ex_crypto_laws ex_attests by (simp_all add: ex_libs_def)
  have d: "Decompress (vl_cose ex_vlibs) (kwaAttestation (krKey resp)) = Inr (kwaAttestation (krKey resp))"
    by (simp add: ex_vlibs_def ex_cose_def)
  have k: "ex_pcrs \<noteq> []" by (simp add: ex_pcrs_def)
  show ?thesis
    using key_response_validates [OF s l h d ex_platform_ok k] d by blast
qed

text \<open>
  C3: the sealed-revenue promise end to end: a bidder that takes the key from the enclave's key
  response and seals a CPM price under it gets its bid listed as decrypted, at the microdollar
  value of exactly that price.
\<close>

theorem sealed_bid_end_to_end:
  assumes "keygen_correct (lib_crypto L)" "gcm_correct (lib_crypto L)" "pkix_correct (lib_crypto L)"
    and "NewKeyManager (lib_crypto L) w0 = (Inr km, w0')"
    and "HandleKeyRequest L attester1 (Some km) w1 = (Some (Inr kr), w1')"
    and "cpm_ok price" and "ParsePublicKey (lib_crypto L) (kwaPublicKey (krKey kr)) = Inr pub"
    and "SealCPMDollars (lib_crypto L) (Some pub) price w2 = (Inr er, w2')"
    and "wb \<in> set (reqBids req)" "parses (lib_uuid L) wb" "wbEncryptedCPMDollars wb = Some er"
    and "HandleArbitrationRequest L attester2 (Some km) req w3 = (Some r, w3')" "respSuccess r"
  shows "\<exists>b \<in> set (respBids r). rbID b = uuid_String (lib_uuid L) (projr (uuid_Parse (lib_uuid L) (wbID wb)))
    \<and> rbSource b = wbSource wb \<and> rbDecrypted b \<and> sint (rbRevenue b) = cpm_micros (val price)"
proof -
  obtain priv bits f where km: "km = \<lparr>privateKey = Some priv, kmPublicKey = Some (rsa_Public priv)\<rparr>"
    and gen: "GenerateKey (lib_crypto L) bits f = Inr priv"
    using assms(4)
    by (auto simp: NewKeyManager_def generateRSAKeypair_def rsa_GenerateKey_def result_simps split: sum.splits)
  have kp: "key_pair (lib_crypto L) (rsa_Public priv) priv" using assms(1) gen by (auto simp: keygen_correct_def)
  have "publicKeyToPEM (lib_crypto L) (Some (rsa_Public priv)) = Some (Inr (kwaPublicKey (krKey kr)))"
    using assms(5) by (rule key_request_Inr) (auto simp: km publicKeyToPEM_def)
  then have pub: "pub = rsa_Public priv" using ParsePublicKey_PEM [OF assms(3)] assms(7) by simp
  have "wf_f64 price" using assms(6) by (simp add: cpm_ok_def)
  then have dec: "decryptCPMDollars (lib_print L) (lib_crypto L) (Some priv) (Some er) = Inr price"
    using decrypt_seal [OF kp assms(2) _ assms(8) [unfolded pub]] by blast
  have "resolve_bid (lib_print L) (lib_oor L) (lib_crypto L) \<lparr>arbPriv = PrivateKey km\<rparr> (core_bid (lib_uuid L) wb)
      = \<lparr>abBid = Some (core_bid (lib_uuid L) wb), Revenue = cpm_AsMicros (lib_oor L) price, Decrypted = True\<rparr>"
    using dec by (intro resolve_decrypted) (simp add: PrivateKey_def km core_bid_def assms(11))
  then show ?thesis
    using listed_bid [OF assms(12,13,9,10)] cpm_AsMicros_val [OF assms(6), of "lib_oor L"]
    by (intro bexI [rotated]) (assumption, simp add: resolved_bid_of_def core_bid_def)
qed

theorem sealed_bid_end_to_end_witness:
  "\<exists>er (r :: EnclaveArbitrationResponse) b. b \<in> set (respBids r) \<and> rbSource b = ''a'' \<and> rbDecrypted b
     \<and> sint (rbRevenue b) = cpm_micros (val (f64_of_int 2))
     \<and> fst (HandleArbitrationRequest ex_libs (Some ex_attester) (Some ex_km)
          (ex_req\<lparr>reqBids := [\<lparr>wbID = ''7'', wbSource = ''a'', wbCleartextRevenue = 1, wbEncryptedCPMDollars = Some er\<rparr>]\<rparr>)
          ex_world) = Some r"
proof (rule ex_key_response)
  fix kr wk
  assume kr: "HandleKeyRequest ex_libs (Some ex_attester) (Some ex_km) ex_world = (Some (Inr kr), wk)"
  have l: "keygen_correct (lib_crypto ex_libs)" "gcm_correct (lib_crypto ex_libs)" "pkix_correct (lib_crypto ex_libs)"
    using ex_crypto_laws by (simp_all add: ex_libs_def)
  have km: "\<exists>w'. NewKeyManager (lib_crypto ex_libs) ex_world = (Inr ex_km, w')"
    by (simp add: NewKeyManager_def generateRSAKeypair_def rsa_GenerateKey_def bind_io_def wrap_io_def lift_io_def
      ex_world_def ex_libs_def ex_crypto_def ex_km_def ex_priv_def)
  then obtain w0 where km: "NewKeyManager (lib_crypto ex_libs) ex_world = (Inr ex_km, w0)" by blast
  have "float_ok (f64_of_int 2)" by code_simp
  then obtain er ws where s: "SealCPMDollars (lib_crypto ex_libs) (Some (rsa_Public ex_priv)) (f64_of_int 2) ex_world = (Inr er, ws)"
    using SealCPMDollars_ok [of "f64_of_int 2" ex_world ex_crypto "rsa_Public ex_priv"]
    by (auto simp: ex_world_def ex_crypto_def ex_libs_def)
  have cpm: "cpm_ok (f64_of_int 2)"
    using f64_of_int_props(1) [of 2] f64_of_int_exact [of 2] by (simp add: cpm_ok_def)
  have "publicKeyToPEM (lib_crypto ex_libs) (Some (rsa_Public ex_priv)) = Some (Inr (kwaPublicKey (krKey kr)))"
    using kr by (rule key_request_Inr) (auto simp: ex_km_def publicKeyToPEM_def)
  then have pub: "ParsePublicKey (lib_crypto ex_libs) (kwaPublicKey (krKey kr)) = Inr (rsa_Public ex_priv)"
    by (rule ParsePublicKey_PEM [OF l(3)])
  let ?wb = "\<lparr>wbID = ''7'', wbSource = ''a'', wbCleartextRevenue = 1, wbEncryptedCPMDollars = Some er\<rparr>"
  let ?req = "ex_req\<lparr>reqBids := [?wb]\<rparr>"
  obtain r w' where h: "HandleArbitrationRequest ex_libs (Some ex_attester) (Some ex_km) ?req ex_world = (Some r, w')" "respSuccess r"
    using handler_ok [OF ex_sound_world ex_always_attests] by blast
  have "is_ok (uuid_Parse ex_uuid ''7'')" by code_simp
  then have wb: "?wb \<in> set (reqBids ?req)" "parses (lib_uuid ex_libs) ?wb" "wbEncryptedCPMDollars ?wb = Some er"
    by (simp_all add: parses_def ex_libs_def)
  obtain b where "b \<in> set (respBids r)" "rbSource b = wbSource ?wb" "rbDecrypted b"
    "sint (rbRevenue b) = cpm_micros (val (f64_of_int 2))"
    using sealed_bid_end_to_end [OF l km kr cpm pub s wb h] by blast
  then show ?thesis using h(1) by (intro exI [of _ er] exI [of _ r] exI [of _ b]) simp
qed

end
